theory Spec2Isabelle
  imports Main
begin

section \<open>Shared data model (types.ts, sandboxTypes)\<close>

text \<open>
  A JavaScript string is modelled as a \<^typ>\<open>string\<close>; one \<^typ>\<open>char\<close> stands for one
  UTF-16 code unit in the range 0..255. All delimiters the analyzers look at are ASCII.
\<close>

datatype LintSeverity = Error | Warning | Info

record CodeIssue =
  message :: string
  filePath :: string
  line :: nat
  column :: nat
  severity :: LintSeverity
  ruleId :: string
  source :: string

record FileInput =
  path :: string
  content :: string

subsection \<open>String primitives of the host language\<close>

text \<open>\<^verbatim>\<open>s.endsWith(suf)\<close>\<close>

definition endsWith :: "string \<Rightarrow> string \<Rightarrow> bool" where
  "endsWith s suf = (length suf \<le> length s \<and> drop (length s - length suf) s = suf)"

text \<open>\<^verbatim>\<open>s.startsWith(pre)\<close>, the anchored literal prefix of a regular expression.\<close>

definition startsWith :: "string \<Rightarrow> string \<Rightarrow> bool" where
  "startsWith s pre = (take (length pre) s = pre)"

text \<open>\<^verbatim>\<open>c.toLowerCase()\<close> on the code units 0..255: A-Z and the Latin-1 capitals.\<close>

definition char_toLowerCase :: "char \<Rightarrow> char" where
  "char_toLowerCase c =
     (let n = (of_char c :: nat)
      in if (65 \<le> n \<and> n \<le> 90) \<or> (192 \<le> n \<and> n \<le> 222 \<and> n \<noteq> 215)
         then char_of (n + 32) else c)"

definition toLowerCase :: "string \<Rightarrow> string" where
  "toLowerCase s = map char_toLowerCase s"

text \<open>\<^verbatim>\<open>content.split('\n')\<close>: always at least one line.\<close>

fun split_lines :: "string \<Rightarrow> string list" where
  "split_lines [] = [[]]"
| "split_lines (c # cs) =
     (if c = CHR 0x0A then [] # split_lines cs
      else (c # hd (split_lines cs)) # tl (split_lines cs))"

text \<open>Decimal rendering of a non-negative integer inside a template literal.\<close>

fun string_of_nat :: "nat \<Rightarrow> string" where
  "string_of_nat n =
     (if n < 10 then [char_of (48 + n)]
      else string_of_nat (n div 10) @ [char_of (48 + n mod 10)])"

definition string_of_int :: "int \<Rightarrow> string" where
  "string_of_int k = (if k < 0 then CHR ''-'' # string_of_nat (nat (- k)) else string_of_nat (nat k))"

subsection \<open>Spreading a list into a call\<close>

text \<open>
  \<^verbatim>\<open>xs.push(...ys)\<close> passes every element of \<open>ys\<close> as an argument of one call. An engine
  bounds the number of arguments of a call and raises \<^verbatim>\<open>RangeError\<close> beyond the bound;
  nothing in the source catches it. The bound is a parameter of the model.
\<close>

datatype js_error = RangeError

definition push_spread :: "nat \<Rightarrow> 'a list \<Rightarrow> 'a list \<Rightarrow> js_error + 'a list" where
  "push_spread argLimit xs ys = (if argLimit < length ys then Inl RangeError else Inr (xs @ ys))"

section \<open>Stylesheet structural analyzer (analyzers/CSSAnalyzer.ts)\<close>

record css_state =
  braceCount :: int
  inString :: bool
  stringChar :: string
  inComment :: bool
  issues :: "CodeIssue list"

definition css_init :: css_state where
  "css_init = \<lparr>braceCount = 0, inString = False, stringChar = [], inComment = False, issues = []\<rparr>"

definition css_unexpected_brace :: "string \<Rightarrow> nat \<Rightarrow> nat \<Rightarrow> CodeIssue" where
  "css_unexpected_brace p lineNum i =
     \<lparr>message = ''Unexpected closing brace'', filePath = p, line = lineNum + 1, column = i,
      severity = Error, ruleId = ''CSS_UNEXPECTED_BRACE'', source = ''css-analyzer''\<rparr>"

definition css_unclosed_brace :: "string \<Rightarrow> int \<Rightarrow> nat \<Rightarrow> CodeIssue" where
  "css_unclosed_brace p n len =
     \<lparr>message = ''Unclosed brace: '' @ string_of_int n @ '' opening brace(s) without matching close'',
      filePath = p, line = len, column = 0,
      severity = Error, ruleId = ''CSS_UNCLOSED_BRACE'', source = ''css-analyzer''\<rparr>"

definition css_unclosed_comment :: "string \<Rightarrow> nat \<Rightarrow> CodeIssue" where
  "css_unclosed_comment p len =
     \<lparr>message = ''Unclosed comment'', filePath = p, line = len, column = 0,
      severity = Error, ruleId = ''CSS_UNCLOSED_COMMENT'', source = ''css-analyzer''\<rparr>"

definition css_unclosed_string :: "string \<Rightarrow> nat \<Rightarrow> CodeIssue" where
  "css_unclosed_string p len =
     \<lparr>message = ''Unclosed string'', filePath = p, line = len, column = 0,
      severity = Error, ruleId = ''CSS_UNCLOSED_STRING'', source = ''css-analyzer''\<rparr>"

text \<open>The "Count braces" tail of the loop body, reached outside strings and comments.\<close>

definition count_brace :: "string \<Rightarrow> nat \<Rightarrow> nat \<Rightarrow> char \<Rightarrow> css_state \<Rightarrow> css_state" where
  "count_brace p lineNum i c st =
     (let b1 = (if c = CHR ''{'' then braceCount st + 1 else braceCount st);
          b2 = (if c = CHR ''}'' then b1 - 1 else b1)
      in if b2 < 0
         then st\<lparr>braceCount := 0, issues := issues st @ [css_unexpected_brace p lineNum i]\<rparr>
         else st\<lparr>braceCount := b2\<rparr>)"

text \<open>
  The body of the inner loop at index \<open>i\<close>: \<open>c\<close> is \<^verbatim>\<open>line[i]\<close>, \<open>nextChar\<close> is
  \<^verbatim>\<open>line[i + 1]\<close> and \<open>prev\<close> is \<^verbatim>\<open>line[i - 1]\<close> (\<open>None\<close> for \<^verbatim>\<open>undefined\<close>). The
  flag returned is \<open>True\<close> for the two comment branches, which run \<^verbatim>\<open>i++\<close> before
  \<^verbatim>\<open>continue\<close>.
\<close>

definition css_body ::
  "string \<Rightarrow> nat \<Rightarrow> nat \<Rightarrow> char option \<Rightarrow> char \<Rightarrow> char option \<Rightarrow> css_state \<Rightarrow> css_state \<times> bool" where
  "css_body p lineNum i prev c nextChar st =
     (if \<not> inString st \<and> \<not> inComment st \<and> c = CHR ''/'' \<and> nextChar = Some CHR ''*''
      then (st\<lparr>inComment := True\<rparr>, True)
      else if inComment st \<and> c = CHR ''*'' \<and> nextChar = Some CHR ''/''
      then (st\<lparr>inComment := False\<rparr>, True)
      else if inComment st then (st, False)
      else if \<not> inString st \<and> (c = CHR 0x22 \<or> c = CHR 0x27)
      then (st\<lparr>inString := True, stringChar := [c]\<rparr>, False)
      else if inString st \<and> [c] = stringChar st \<and> prev \<noteq> Some CHR 0x5C
      then (st\<lparr>inString := False\<rparr>, False)
      else if inString st then (st, False)
      else (count_brace p lineNum i c st, False))"

definition char_at_0 :: "string \<Rightarrow> char option" where
  "char_at_0 s = (case s of [] \<Rightarrow> None | d # _ \<Rightarrow> Some d)"

text \<open>The inner loop over one line; the list is the line from index \<open>i\<close> on.\<close>

fun scan_line :: "string \<Rightarrow> nat \<Rightarrow> nat \<Rightarrow> char option \<Rightarrow> string \<Rightarrow> css_state \<Rightarrow> css_state" where
  "scan_line p lineNum i prev [] st = st"
| "scan_line p lineNum i prev (c # rest) st =
     (case css_body p lineNum i prev c (char_at_0 rest) st of
        (st', skip) \<Rightarrow>
          if skip then scan_line p lineNum (i + 2) (char_at_0 rest) (tl rest) st'
          else scan_line p lineNum (i + 1) (Some c) rest st')"

text \<open>The outer loop over the lines, \<open>lineNum\<close> counting from 0.\<close>

fun scan_lines :: "string \<Rightarrow> nat \<Rightarrow> string list \<Rightarrow> css_state \<Rightarrow> css_state" where
  "scan_lines p lineNum [] st = st"
| "scan_lines p lineNum (l # ls) st = scan_lines p (lineNum + 1) ls (scan_line p lineNum 0 None l st)"

text \<open>The three end-of-file checks, in the order of the source.\<close>

definition css_eof :: "string \<Rightarrow> nat \<Rightarrow> css_state \<Rightarrow> CodeIssue list" where
  "css_eof p len st =
     issues st
     @ (if braceCount st > 0 then [css_unclosed_brace p (braceCount st) len] else [])
     @ (if inComment st then [css_unclosed_comment p len] else [])
     @ (if inString st then [css_unclosed_string p len] else [])"

definition CSS_analyze :: "FileInput \<Rightarrow> CodeIssue list" where
  "CSS_analyze file =
     (let lines = split_lines (content file)
      in css_eof (path file) (length lines) (scan_lines (path file) 0 lines css_init))"

section \<open>The external tag-event source (htmlparser2)\<close>

text \<open>
  The markup analyzer and the validator drive a streaming parser of the library htmlparser2
  with three callbacks. The callbacks return nothing to the parser, so a run of the parser
  over a text is the list of events it delivers, followed by normal completion or by a
  thrown value. The parser itself is a parameter of the model.
\<close>

datatype tag_event =
    OpenTag string "string \<rightharpoonup> string"
  | CloseTag string
  | TextNode string

datatype parser_outcome = Finished | Threw_Error string | Threw_Other

record parser_options =
  lowerCaseTags :: bool
  lowerCaseAttributeNames :: bool

type_synonym tag_source = "parser_options \<Rightarrow> string \<Rightarrow> tag_event list \<times> parser_outcome"

text \<open>\<^verbatim>\<open>(text.match(/\n/g) || []).length\<close>\<close>

definition count_newlines :: "string \<Rightarrow> nat" where
  "count_newlines text = count_list text (CHR 0x0A)"

section \<open>Markup structural analyzer (analyzers/HTMLAnalyzer.ts)\<close>

record TagFrame =
  frame_name :: string
  frame_line :: nat

record html_state =
  html_issues :: "CodeIssue list"
  tagStack :: "TagFrame list"
  currentLine :: nat

definition html_init :: html_state where
  "html_init = \<lparr>html_issues = [], tagStack = [], currentLine = 1\<rparr>"

definition selfClosingTags :: "string list" where
  "selfClosingTags =
     [''area'', ''base'', ''br'', ''col'', ''embed'', ''hr'', ''img'', ''input'',
      ''link'', ''meta'', ''param'', ''source'', ''track'', ''wbr'']"

definition html_issue :: "string \<Rightarrow> string \<Rightarrow> nat \<Rightarrow> string \<Rightarrow> CodeIssue" where
  "html_issue msg p ln rid =
     \<lparr>message = msg, filePath = p, line = ln, column = 0,
      severity = Error, ruleId = rid, source = ''htmlparser2''\<rparr>"

definition html_unexpected_close :: "string \<Rightarrow> string \<Rightarrow> nat \<Rightarrow> CodeIssue" where
  "html_unexpected_close p name ln =
     html_issue (''Unexpected closing tag </'' @ name @ ''>'') p ln ''HTML_UNEXPECTED_CLOSE''"

definition html_tag_mismatch :: "string \<Rightarrow> string \<Rightarrow> string \<Rightarrow> nat \<Rightarrow> CodeIssue" where
  "html_tag_mismatch p expected name ln =
     html_issue (''Mismatched closing tag: expected </'' @ expected @ ''>, found </'' @ name @ ''>'')
       p ln ''HTML_TAG_MISMATCH''"

definition html_parse_error :: "string \<Rightarrow> string \<Rightarrow> CodeIssue" where
  "html_parse_error p msg = html_issue msg p 1 ''HTML_PARSE_ERROR''"

definition html_unclosed_tag :: "string \<Rightarrow> TagFrame \<Rightarrow> CodeIssue" where
  "html_unclosed_tag p tag =
     html_issue (''Unclosed tag <'' @ frame_name tag @ ''>'') p (frame_line tag) ''HTML_UNCLOSED_TAG''"

definition onopentag :: "string \<Rightarrow> html_state \<Rightarrow> html_state" where
  "onopentag name st =
     (if toLowerCase name \<notin> set selfClosingTags
      then st\<lparr>tagStack := tagStack st @ [\<lparr>frame_name = toLowerCase name, frame_line = currentLine st\<rparr>]\<rparr>
      else st)"

text \<open>The stack is the array \<^verbatim>\<open>tagStack\<close>: its top is the last element.\<close>

definition onclosetag :: "string \<Rightarrow> string \<Rightarrow> html_state \<Rightarrow> html_state" where
  "onclosetag p name st =
     (let lowerName = toLowerCase name
      in if lowerName \<in> set selfClosingTags then st
         else if tagStack st = []
         then st\<lparr>html_issues := html_issues st @ [html_unexpected_close p name (currentLine st)]\<rparr>
         else let lastTag = last (tagStack st)
              in if frame_name lastTag \<noteq> lowerName
                 then st\<lparr>html_issues := html_issues st
                          @ [html_tag_mismatch p (frame_name lastTag) name (currentLine st)]\<rparr>
                 else st\<lparr>tagStack := butlast (tagStack st)\<rparr>)"

definition ontext :: "string \<Rightarrow> html_state \<Rightarrow> html_state" where
  "ontext text st = st\<lparr>currentLine := currentLine st + count_newlines text\<rparr>"

fun html_event :: "string \<Rightarrow> html_state \<Rightarrow> tag_event \<Rightarrow> html_state" where
  "html_event p st (OpenTag name attribs) = onopentag name st"
| "html_event p st (CloseTag name) = onclosetag p name st"
| "html_event p st (TextNode text) = ontext text st"

definition html_options :: parser_options where
  "html_options = \<lparr>lowerCaseTags = False, lowerCaseAttributeNames = False\<rparr>"

text \<open>
  \<^verbatim>\<open>try { parser.write; parser.end } catch\<close>: the events delivered before a throw have
  taken effect; a thrown \<^verbatim>\<open>Error\<close> adds one issue, any other thrown value none. The loop
  over the remaining stack follows.
\<close>

definition HTML_analyze :: "tag_source \<Rightarrow> FileInput \<Rightarrow> CodeIssue list" where
  "HTML_analyze parser file =
     (let run = parser html_options (content file);
          st = foldl (html_event (path file)) html_init (fst run);
          caught = (case snd run of
                      Threw_Error msg \<Rightarrow> [html_parse_error (path file) msg]
                    | _ \<Rightarrow> [])
      in html_issues st @ caught @ map (html_unclosed_tag (path file)) (tagStack st))"

section \<open>Script analyzer (analyzers/JavaScriptAnalyzer.ts)\<close>

text \<open>The external parser acorn either returns or throws; it is a parameter of the model.\<close>

datatype acorn_outcome =
    Parsed
  | Threw_SyntaxError string "(nat \<times> nat) option"
  | Threw_OtherError string
  | Threw_NonError

type_synonym script_parser = "string \<Rightarrow> acorn_outcome"

definition js_issue :: "string \<Rightarrow> string \<Rightarrow> nat \<Rightarrow> nat \<Rightarrow> string \<Rightarrow> CodeIssue" where
  "js_issue msg p ln col rid =
     \<lparr>message = msg, filePath = p, line = ln, column = col,
      severity = Error, ruleId = rid, source = ''acorn''\<rparr>"

definition JS_analyze :: "script_parser \<Rightarrow> FileInput \<Rightarrow> CodeIssue list" where
  "JS_analyze acorn file =
     (case acorn (content file) of
        Parsed \<Rightarrow> []
      | Threw_SyntaxError msg loc \<Rightarrow>
          [js_issue msg (path file)
             (case loc of Some (ln, col) \<Rightarrow> ln | None \<Rightarrow> 1)
             (case loc of Some (ln, col) \<Rightarrow> col | None \<Rightarrow> 0)
             ''JS_SYNTAX_ERROR'']
      | Threw_OtherError msg \<Rightarrow> [js_issue msg (path file) 1 0 ''JS_PARSE_ERROR'']
      | Threw_NonError \<Rightarrow> [])"

section \<open>Cross-file validator (validators/HTMLCSSCrossValidator.ts)\<close>

subsection \<open>Character classes of the regular expressions\<close>

text \<open>\<^verbatim>\<open>\s\<close> on the code units 0..255: tab, LF, VT, FF, CR, space and the no-break space.\<close>

definition is_space :: "char \<Rightarrow> bool" where
  "is_space c = (c \<in> set [CHR 0x09, CHR 0x0A, CHR 0x0B, CHR 0x0C, CHR 0x0D, CHR 0x20, CHR 0xA0])"

text \<open>\<^verbatim>\<open>.\<close> matches everything but a line terminator.\<close>

definition is_line_terminator :: "char \<Rightarrow> bool" where
  "is_line_terminator c = (c = CHR 0x0A \<or> c = CHR 0x0D)"

text \<open>\<^verbatim>\<open>[a-zA-Z_]\<close> and \<^verbatim>\<open>[a-zA-Z0-9_-]\<close>\<close>

definition is_name_start :: "char \<Rightarrow> bool" where
  "is_name_start c =
     (c \<in> set ''abcdefghijklmnopqrstuvwxyz'' \<or> c \<in> set ''ABCDEFGHIJKLMNOPQRSTUVWXYZ'' \<or> c = CHR ''_'')"

definition is_name_char :: "char \<Rightarrow> bool" where
  "is_name_char c = (is_name_start c \<or> c \<in> set ''0123456789'' \<or> c = CHR ''-'')"

text \<open>
  A literal matched under the flag \<^verbatim>\<open>i\<close>: without the flag \<^verbatim>\<open>u\<close> a character at or above
  128 never folds to an ASCII letter, so only the ASCII capitals are folded.
\<close>

definition ascii_lower :: "char \<Rightarrow> char" where
  "ascii_lower c = (let n = (of_char c :: nat) in if 65 \<le> n \<and> n \<le> 90 then char_of (n + 32) else c)"

definition startsWith_ci :: "string \<Rightarrow> string \<Rightarrow> bool" where
  "startsWith_ci s lit = (map ascii_lower (take (length lit) s) = lit)"

subsection \<open>Suppression heuristics\<close>

text \<open>\<^verbatim>\<open>/^PRE.*SUF$/\<close>\<close>

definition wrapped_by :: "string \<Rightarrow> string \<Rightarrow> string \<Rightarrow> bool" where
  "wrapped_by pre suf s =
     (length pre + length suf \<le> length s \<and> startsWith s pre \<and> endsWith s suf \<and>
      \<not> list_ex is_line_terminator (take (length s - length pre - length suf) (drop (length pre) s)))"

text \<open>\<^verbatim>\<open>/^(w1|w2|...)TAIL/\<close>\<close>

definition starts_with_any :: "string list \<Rightarrow> string \<Rightarrow> string \<Rightarrow> bool" where
  "starts_with_any ws tail s = list_ex (\<lambda>w. startsWith s (w @ tail)) ws"

text \<open>\<^verbatim>\<open>/^-?[mpwh][trblxy]?-/\<close>\<close>

definition spacing_shorthand :: "string \<Rightarrow> bool" where
  "spacing_shorthand s =
     (case (if startsWith s ''-'' then drop 1 s else s) of
        [] \<Rightarrow> False
      | a # r \<Rightarrow> a \<in> set ''mpwh'' \<and>
          (case r of
             [] \<Rightarrow> False
           | b # r2 \<Rightarrow> (b \<in> set ''trblxy'' \<and> startsWith r2 ''-'') \<or> b = CHR ''-''))"

definition DYNAMIC_CLASS_PATTERNS :: "(string \<Rightarrow> bool) list" where
  "DYNAMIC_CLASS_PATTERNS =
     [wrapped_by ''{{'' ''}}'',
      wrapped_by ''<%'' ''%>'',
      wrapped_by ''${'' ''}'',
      wrapped_by ''['' '']'',
      wrapped_by '':'' [],
      starts_with_any [''v-''] [],
      starts_with_any [''ng-''] [],
      starts_with_any [''x-''] []]"

definition UTILITY_FRAMEWORK_PATTERNS :: "(string \<Rightarrow> bool) list" where
  "UTILITY_FRAMEWORK_PATTERNS =
     [spacing_shorthand,
      starts_with_any [''flex'', ''grid'', ''block'', ''inline'', ''hidden'', ''visible'',
                       ''absolute'', ''relative'', ''fixed'', ''sticky''] [],
      starts_with_any [''text'', ''bg'', ''border'', ''rounded'', ''shadow'', ''opacity'', ''z''] ''-'',
      starts_with_any [''sm'', ''md'', ''lg'', ''xl'', ''2xl''] '':'',
      starts_with_any [''hover'', ''focus'', ''active'', ''disabled'', ''dark''] '':'',
      starts_with_any [''justify'', ''items'', ''content'', ''self''] ''-'',
      starts_with_any [''gap'', ''space''] ''-'',
      starts_with_any [''font'', ''leading'', ''tracking''] ''-'',
      starts_with_any [''overflow'', ''cursor'', ''pointer'', ''transition'', ''duration'', ''ease''] ''-'']"

definition isLikelyDynamicOrFrameworkClass :: "string \<Rightarrow> bool" where
  "isLikelyDynamicOrFrameworkClass className =
     (list_ex (\<lambda>pattern. pattern className) DYNAMIC_CLASS_PATTERNS \<or>
      list_ex (\<lambda>pattern. pattern className) UTILITY_FRAMEWORK_PATTERNS)"

subsection \<open>Definition collection\<close>

text \<open>
  \<^verbatim>\<open>content.replace(/\/\*[\s\S]*?\*\//g, '')\<close>: the lazy body ends at the first \<^verbatim>\<open>*/\<close> after
  the opener; an opener with no closer is kept and the scan moves on by one character.
\<close>

fun after_comment_end :: "string \<Rightarrow> string option" where
  "after_comment_end (c # d # rest) =
     (if c = CHR ''*'' \<and> d = CHR ''/'' then Some rest else after_comment_end (d # rest))"
| "after_comment_end _ = None"

lemma after_comment_end_shorter:
  "after_comment_end s = Some r \<Longrightarrow> length r < length s"
  by (induction s rule: after_comment_end.induct) (auto split: if_splits)

function strip_comments :: "string \<Rightarrow> string" where
  "strip_comments [] = []"
| "strip_comments (c # rest) =
     (if c = CHR ''/'' \<and> char_at_0 rest = Some CHR ''*''
      then (case after_comment_end (tl rest) of
              Some r \<Rightarrow> strip_comments r
            | None \<Rightarrow> c # strip_comments rest)
      else c # strip_comments rest)"
  by pat_completeness auto
termination
proof (relation "measure length")
  fix c rest r
  assume "after_comment_end (tl rest) = Some r"
  then have "length r < length (tl rest)" by (rule after_comment_end_shorter)
  then show "(r, c # rest) \<in> measure length" by simp
qed simp_all

text \<open>
  \<^verbatim>\<open>cleaned.replace(/url\s*\([^)]*\)/gi, '')\<close>. \<open>match_url s\<close> is the text after the match
  when the pattern matches at the start of \<open>s\<close>.
\<close>

definition match_url :: "string \<Rightarrow> string option" where
  "match_url s =
     (if startsWith_ci s ''url''
      then (case dropWhile is_space (drop 3 s) of
              [] \<Rightarrow> None
            | c # r \<Rightarrow>
                if c = CHR ''(''
                then (case dropWhile (\<lambda>x. x \<noteq> CHR '')'') r of
                        [] \<Rightarrow> None
                      | _ # r' \<Rightarrow> Some r')
                else None)
      else None)"

lemma match_url_shorter:
  "match_url s = Some r \<Longrightarrow> length r < length s"
proof -
  assume a: "match_url s = Some r"
  have 1: "length (dropWhile is_space (drop 3 s)) \<le> length s"
    by (rule order_trans[OF length_dropWhile_le]) simp
  have 2: "\<And>t. length (dropWhile (\<lambda>x. x \<noteq> CHR '')'') t) \<le> length t"
    by (rule length_dropWhile_le)
  from a obtain c t where ct: "dropWhile is_space (drop 3 s) = c # t"
    and r: "\<exists>y. dropWhile (\<lambda>x. x \<noteq> CHR '')'') t = y # r"
    by (auto simp: match_url_def split: if_splits list.splits)
  from r obtain y where y: "dropWhile (\<lambda>x. x \<noteq> CHR '')'') t = y # r" by blast
  have "length r < length t" using 2[of t] y by simp
  moreover have "length t < length s" using 1 ct by simp
  ultimately show ?thesis by simp
qed

function strip_urls :: "string \<Rightarrow> string" where
  "strip_urls [] = []"
| "strip_urls (c # rest) =
     (case match_url (c # rest) of
        Some r \<Rightarrow> strip_urls r
      | None \<Rightarrow> c # strip_urls rest)"
  by pat_completeness auto
termination
proof (relation "measure length")
  fix c rest r
  assume "match_url (c # rest) = Some r"
  then have "length r < length (c # rest)" by (rule match_url_shorter)
  then show "(r, c # rest) \<in> measure length" by simp
qed simp_all

text \<open>
  The loop that keeps the text before each \<^verbatim>\<open>{\<close> at depth 0. The depth is not clamped: a
  stray \<^verbatim>\<open>}\<close> makes it negative.
\<close>

fun selector_loop :: "string \<Rightarrow> int \<Rightarrow> string \<Rightarrow> string list \<Rightarrow> string list" where
  "selector_loop [] depth currentSelector selectorBlocks = selectorBlocks"
| "selector_loop (c # cs) depth currentSelector selectorBlocks =
     (if c = CHR ''{''
      then (if depth = 0
            then selector_loop cs (depth + 1) [] (selectorBlocks @ [currentSelector])
            else selector_loop cs (depth + 1) currentSelector selectorBlocks)
      else if c = CHR ''}''
      then selector_loop cs (depth - 1) currentSelector selectorBlocks
      else if depth = 0
      then selector_loop cs depth (currentSelector @ [c]) selectorBlocks
      else selector_loop cs depth currentSelector selectorBlocks)"

text \<open>\<^verbatim>\<open>selectorBlocks.join(' ')\<close>\<close>

fun join_space :: "string list \<Rightarrow> string" where
  "join_space [] = []"
| "join_space [x] = x"
| "join_space (x # y # ys) = x @ '' '' @ join_space (y # ys)"

text \<open>
  The \<^verbatim>\<open>exec\<close> loop of \<^verbatim>\<open>/\.([a-zA-Z_][a-zA-Z0-9_-]*)/g\<close> (sigil \<^verbatim>\<open>.\<close>) and of
  \<^verbatim>\<open>/#([a-zA-Z_][a-zA-Z0-9_-]*)/g\<close> (sigil \<^verbatim>\<open>#\<close>): the captured names, leftmost first, each
  match greedy, the search resuming after the match.
\<close>

function match_names :: "char \<Rightarrow> string \<Rightarrow> string list" where
  "match_names sigil [] = []"
| "match_names sigil (c # rest) =
     (if c = sigil \<and> (case rest of [] \<Rightarrow> False | d # _ \<Rightarrow> is_name_start d)
      then takeWhile is_name_char rest # match_names sigil (dropWhile is_name_char rest)
      else match_names sigil rest)"
  by pat_completeness auto
termination
proof (relation "measure (\<lambda>(sigil, s). length s)")
  fix sigil :: char and c :: char and rest :: string
  have "length (dropWhile is_name_char rest) \<le> length rest" by (rule length_dropWhile_le)
  then show "((sigil, dropWhile is_name_char rest), (sigil, c # rest)) \<in> measure (\<lambda>(sigil, s). length s)"
    by simp
qed simp_all

type_synonym definitions = "string set \<times> string set"

definition extractCSSDefinitions :: "string \<Rightarrow> definitions \<Rightarrow> definitions" where
  "extractCSSDefinitions text defs =
     (let cleaned = strip_urls (strip_comments text);
          selectorBlocks = selector_loop cleaned 0 [] [];
          selectorText = join_space selectorBlocks
      in (fold insert (match_names CHR ''.'' selectorText) (fst defs),
          fold insert (match_names CHR ''#'' selectorText) (snd defs)))"

text \<open>
  The \<^verbatim>\<open>exec\<close> loop of \<^verbatim>\<open>/<style[^>]*>([\s\S]*?)<\/style>/gi\<close>. \<open>style_end body s\<close> extends the
  lazy group one character at a time; \<open>match_style s\<close> is the captured body and the text
  after the match when the pattern matches at the start of \<open>s\<close>.
\<close>

fun style_end :: "string \<Rightarrow> string \<Rightarrow> (string \<times> string) option" where
  "style_end body [] = None"
| "style_end body (c # cs) =
     (if startsWith_ci (c # cs) ''</style>'' then Some (body, drop 8 (c # cs))
      else style_end (body @ [c]) cs)"

definition match_style :: "string \<Rightarrow> (string \<times> string) option" where
  "match_style s =
     (if startsWith_ci s ''<style''
      then (case dropWhile (\<lambda>x. x \<noteq> CHR ''>'') (drop 6 s) of
              [] \<Rightarrow> None
            | _ # r \<Rightarrow> style_end [] r)
      else None)"

lemma style_end_shorter: "style_end body s = Some (b, r) \<Longrightarrow> length r < length s"
proof (induction s arbitrary: body)
  case Nil
  then show ?case by simp
next
  case (Cons c cs)
  then show ?case by (fastforce split: if_splits)
qed

lemma match_style_shorter: "match_style s = Some (b, r) \<Longrightarrow> length r < length s"
proof -
  assume a: "match_style s = Some (b, r)"
  then obtain y t where t: "dropWhile (\<lambda>x. x \<noteq> CHR ''>'') (drop 6 s) = y # t"
    and e: "style_end [] t = Some (b, r)"
    by (auto simp: match_style_def split: if_splits list.splits)
  have "length (dropWhile (\<lambda>x. x \<noteq> CHR ''>'') (drop 6 s)) \<le> length s"
    by (rule order_trans[OF length_dropWhile_le]) simp
  then have "length t < length s" using t by simp
  with style_end_shorter[OF e] show ?thesis by simp
qed

function inline_style_bodies :: "string \<Rightarrow> string list" where
  "inline_style_bodies [] = []"
| "inline_style_bodies (c # rest) =
     (case match_style (c # rest) of
        Some (body, r) \<Rightarrow> body # inline_style_bodies r
      | None \<Rightarrow> inline_style_bodies rest)"
  by pat_completeness auto
termination
proof (relation "measure length")
  fix c rest x body r
  assume "match_style (c # rest) = Some x" "(body, r) = x"
  then have "length r < length (c # rest)" using match_style_shorter by metis
  then show "(r, c # rest) \<in> measure length" by simp
qed simp_all

definition extractInlineStyles :: "string \<Rightarrow> definitions \<Rightarrow> definitions" where
  "extractInlineStyles htmlContent defs = fold extractCSSDefinitions (inline_style_bodies htmlContent) defs"

subsection \<open>Usage collection\<close>

datatype usage_type = UClass | UId

record CSSUsage =
  usage_name :: string
  usage_type :: usage_type
  usage_filePath :: string
  usage_line :: nat

record usage_state =
  usage :: "CSSUsage list"
  usage_currentLine :: nat

text \<open>
  \<^verbatim>\<open>s.split(/\s+/)\<close>: the pieces between the maximal runs of white space, the empty pieces
  at both ends included.
\<close>

function split_ws :: "string \<Rightarrow> string list" where
  "split_ws [] = [[]]"
| "split_ws (c # cs) =
     (if is_space c then [] # split_ws (dropWhile is_space cs)
      else (c # hd (split_ws cs)) # tl (split_ws cs))"
  by pat_completeness auto
termination
proof (relation "measure length")
  fix c :: char and cs :: string
  have "length (dropWhile is_space cs) \<le> length cs" by (rule length_dropWhile_le)
  then show "(dropWhile is_space cs, c # cs) \<in> measure length" by simp
qed simp_all

text \<open>
  The usage callback \<^verbatim>\<open>onopentag\<close>: \<^verbatim>\<open>if (attribs.class)\<close> and \<^verbatim>\<open>if (attribs.id)\<close> hold
  for a present, non-empty string; \<^verbatim>\<open>filter(Boolean)\<close> drops the empty pieces.
\<close>

definition usage_onopentag :: "string \<Rightarrow> (string \<rightharpoonup> string) \<Rightarrow> usage_state \<Rightarrow> usage_state" where
  "usage_onopentag p attribs st =
     (let classUsages =
            (case attribs ''class'' of
               None \<Rightarrow> []
             | Some v \<Rightarrow>
                 if v = [] then []
                 else map (\<lambda>className. \<lparr>usage_name = className, usage_type = UClass,
                                          usage_filePath = p, usage_line = usage_currentLine st\<rparr>)
                        (filter (\<lambda>w. w \<noteq> []) (split_ws v)));
          idUsages =
            (case attribs ''id'' of
               None \<Rightarrow> []
             | Some v \<Rightarrow>
                 if v = [] then []
                 else [\<lparr>usage_name = v, usage_type = UId,
                        usage_filePath = p, usage_line = usage_currentLine st\<rparr>])
      in st\<lparr>usage := usage st @ classUsages @ idUsages\<rparr>)"

fun usage_event :: "string \<Rightarrow> usage_state \<Rightarrow> tag_event \<Rightarrow> usage_state" where
  "usage_event p st (OpenTag name attribs) = usage_onopentag p attribs st"
| "usage_event p st (CloseTag name) = st"
| "usage_event p st (TextNode text) = st\<lparr>usage_currentLine := usage_currentLine st + count_newlines text\<rparr>"

definition usage_options :: parser_options where
  "usage_options = \<lparr>lowerCaseTags = False, lowerCaseAttributeNames = True\<rparr>"

text \<open>A thrown value is ignored; the usages recorded before it are returned.\<close>

definition extractHTMLUsage :: "tag_source \<Rightarrow> FileInput \<Rightarrow> CSSUsage list" where
  "extractHTMLUsage parser file =
     usage (foldl (usage_event (path file)) \<lparr>usage = [], usage_currentLine = 1\<rparr>
              (fst (parser usage_options (content file))))"

subsection \<open>Reporting\<close>

definition validator_issue :: "string \<Rightarrow> CSSUsage \<Rightarrow> string \<Rightarrow> CodeIssue" where
  "validator_issue msg u rid =
     \<lparr>message = msg, filePath = usage_filePath u, line = usage_line u, column = 0,
      severity = Warning, ruleId = rid, source = ''html-css-validator''\<rparr>"

definition class_undefined_message :: "string \<Rightarrow> string" where
  "class_undefined_message n =
     ''CSS class '' @ [CHR 0x22] @ n @ [CHR 0x22] @ '' is used but not defined in any CSS file''"

definition id_undefined_message :: "string \<Rightarrow> string" where
  "id_undefined_message n =
     ''CSS ID '' @ [CHR 0x22] @ n @ [CHR 0x22] @ '' is used but not defined in any CSS file''"

definition class_undefined :: "CSSUsage \<Rightarrow> CodeIssue" where
  "class_undefined u = validator_issue (class_undefined_message (usage_name u)) u ''CSS_CLASS_UNDEFINED''"

definition id_undefined :: "CSSUsage \<Rightarrow> CodeIssue" where
  "id_undefined u = validator_issue (id_undefined_message (usage_name u)) u ''CSS_ID_UNDEFINED''"

text \<open>One pass of the reporting loop; the first branch is the \<^verbatim>\<open>continue\<close>.\<close>

definition report_usage :: "definitions \<Rightarrow> CSSUsage \<Rightarrow> CodeIssue list" where
  "report_usage defs u =
     (if usage_type u = UClass \<and> usage_name u \<notin> fst defs \<and> isLikelyDynamicOrFrameworkClass (usage_name u)
      then []
      else (if usage_type u = UClass \<and> usage_name u \<notin> fst defs then [class_undefined u] else [])
           @ (if usage_type u = UId \<and> usage_name u \<notin> snd defs then [id_undefined u] else []))"

definition is_markup_path :: "string \<Rightarrow> bool" where
  "is_markup_path p = (endsWith p ''.html'' \<or> endsWith p ''.htm'')"

text \<open>The body of the first loop of \<^verbatim>\<open>validate\<close>, the two sets passed along.\<close>

definition collect_definitions :: "FileInput \<Rightarrow> definitions \<Rightarrow> definitions" where
  "collect_definitions file defs =
     (let defs1 = (if endsWith (path file) ''.css''
                   then extractCSSDefinitions (content file) defs else defs)
      in if is_markup_path (path file) then extractInlineStyles (content file) defs1 else defs1)"

text \<open>
  \<open>validate\<close> below is the list the method returns when none of its
  \<^verbatim>\<open>usedSelectors.push(...usage)\<close> calls raises; \<open>validate_run\<close> is the method with the
  raise.
\<close>

definition validate :: "tag_source \<Rightarrow> FileInput list \<Rightarrow> CodeIssue list" where
  "validate parser files =
     (let defs = fold collect_definitions files ({}, {});
          usedSelectors = concat (map (\<lambda>file. if is_markup_path (path file)
                                               then extractHTMLUsage parser file else []) files)
      in concat (map (report_usage defs) usedSelectors))"

text \<open>The second loop of \<^verbatim>\<open>validate\<close>, with its spread call, and the method as a whole.\<close>

fun usage_loop :: "nat \<Rightarrow> tag_source \<Rightarrow> FileInput list \<Rightarrow> CSSUsage list \<Rightarrow> js_error + CSSUsage list" where
  "usage_loop argLimit parser [] usedSelectors = Inr usedSelectors"
| "usage_loop argLimit parser (file # files) usedSelectors =
     (if is_markup_path (path file)
      then (case push_spread argLimit usedSelectors (extractHTMLUsage parser file) of
              Inl e \<Rightarrow> Inl e
            | Inr used \<Rightarrow> usage_loop argLimit parser files used)
      else usage_loop argLimit parser files usedSelectors)"

definition validate_run :: "nat \<Rightarrow> tag_source \<Rightarrow> FileInput list \<Rightarrow> js_error + CodeIssue list" where
  "validate_run argLimit parser files =
     (let defs = fold collect_definitions files ({}, {})
      in case usage_loop argLimit parser files [] of
           Inl e \<Rightarrow> Inl e
         | Inr usedSelectors \<Rightarrow> Inr (concat (map (report_usage defs) usedSelectors)))"

section \<open>Orchestrator (InMemoryAnalyzer.ts)\<close>

datatype LanguageAnalyzer = JavaScriptAnalyzer | HTMLAnalyzer | CSSAnalyzer

fun supportedExtensions :: "LanguageAnalyzer \<Rightarrow> string list" where
  "supportedExtensions JavaScriptAnalyzer = [''.js'', ''.mjs'']"
| "supportedExtensions HTMLAnalyzer = [''.html'', ''.htm'']"
| "supportedExtensions CSSAnalyzer = [''.css'']"

definition analyzers :: "LanguageAnalyzer list" where
  "analyzers = [JavaScriptAnalyzer, HTMLAnalyzer, CSSAnalyzer]"

fun run_analyzer :: "tag_source \<Rightarrow> script_parser \<Rightarrow> LanguageAnalyzer \<Rightarrow> FileInput \<Rightarrow> CodeIssue list" where
  "run_analyzer parser acorn JavaScriptAnalyzer file = JS_analyze acorn file"
| "run_analyzer parser acorn HTMLAnalyzer file = HTML_analyze parser file"
| "run_analyzer parser acorn CSSAnalyzer file = CSS_analyze file"

text \<open>\<^verbatim>\<open>s.lastIndexOf(c)\<close>, with \<open>None\<close> for -1.\<close>

definition lastIndexOf :: "string \<Rightarrow> char \<Rightarrow> nat option" where
  "lastIndexOf s c =
     (if c \<in> set s then Some (length s - 1 - length (takeWhile (\<lambda>x. x \<noteq> c) (rev s))) else None)"

definition getExtension :: "string \<Rightarrow> string" where
  "getExtension fp =
     (case lastIndexOf fp (CHR ''.'') of
        None \<Rightarrow> []
      | Some lastDot \<Rightarrow> toLowerCase (drop lastDot fp))"

definition getAnalyzerForFile :: "string \<Rightarrow> LanguageAnalyzer option" where
  "getAnalyzerForFile fp =
     find (\<lambda>analyzer. getExtension fp \<in> set (supportedExtensions analyzer)) analyzers"

record Summary =
  errorCount :: nat
  warningCount :: nat
  infoCount :: nat

record AnalysisBlock =
  block_issues :: "CodeIssue list"
  summary :: Summary

record StaticAnalysisResponse =
  success :: bool
  lint :: AnalysisBlock
  typecheck :: AnalysisBlock

definition buildResponse :: "CodeIssue list \<Rightarrow> StaticAnalysisResponse" where
  "buildResponse allIssues =
     \<lparr>success = True,
      lint = \<lparr>block_issues = allIssues,
              summary = \<lparr>errorCount = length (filter (\<lambda>i. severity i = Error) allIssues),
                         warningCount = length (filter (\<lambda>i. severity i = Warning) allIssues),
                         infoCount = length (filter (\<lambda>i. severity i = Info) allIssues)\<rparr>\<rparr>,
      typecheck = \<lparr>block_issues = [],
                   summary = \<lparr>errorCount = 0, warningCount = 0, infoCount = 0\<rparr>\<rparr>\<rparr>"

definition single_file_issues :: "tag_source \<Rightarrow> script_parser \<Rightarrow> FileInput \<Rightarrow> CodeIssue list" where
  "single_file_issues parser acorn file =
     (case getAnalyzerForFile (path file) of
        Some analyzer \<Rightarrow> run_analyzer parser acorn analyzer file
      | None \<Rightarrow> [])"

text \<open>
  The two loops of \<^verbatim>\<open>analyze\<close>. Each \<^verbatim>\<open>allIssues.push(...issues)\<close> may raise, and so may a
  validator; the raise leaves \<^verbatim>\<open>analyze\<close>, whose promise is then rejected.
\<close>

fun single_file_loop ::
  "nat \<Rightarrow> tag_source \<Rightarrow> script_parser \<Rightarrow> FileInput list \<Rightarrow> CodeIssue list \<Rightarrow> js_error + CodeIssue list" where
  "single_file_loop argLimit parser acorn [] allIssues = Inr allIssues"
| "single_file_loop argLimit parser acorn (file # files) allIssues =
     (case getAnalyzerForFile (path file) of
        None \<Rightarrow> single_file_loop argLimit parser acorn files allIssues
      | Some analyzer \<Rightarrow>
          (case push_spread argLimit allIssues (run_analyzer parser acorn analyzer file) of
             Inl e \<Rightarrow> Inl e
           | Inr allIssues' \<Rightarrow> single_file_loop argLimit parser acorn files allIssues'))"

definition crossValidators :: "nat \<Rightarrow> tag_source \<Rightarrow> (FileInput list \<Rightarrow> js_error + CodeIssue list) list" where
  "crossValidators argLimit parser = [validate_run argLimit parser]"

fun validators_loop ::
  "nat \<Rightarrow> (FileInput list \<Rightarrow> js_error + CodeIssue list) list \<Rightarrow> FileInput list \<Rightarrow> CodeIssue list
     \<Rightarrow> js_error + CodeIssue list" where
  "validators_loop argLimit [] files allIssues = Inr allIssues"
| "validators_loop argLimit (validator # validators) files allIssues =
     (case validator files of
        Inl e \<Rightarrow> Inl e
      | Inr found \<Rightarrow>
          (case push_spread argLimit allIssues found of
             Inl e \<Rightarrow> Inl e
           | Inr allIssues' \<Rightarrow> validators_loop argLimit validators files allIssues'))"

definition analyze ::
  "nat \<Rightarrow> tag_source \<Rightarrow> script_parser \<Rightarrow> FileInput list \<Rightarrow> js_error + StaticAnalysisResponse" where
  "analyze argLimit parser acorn files =
     (case single_file_loop argLimit parser acorn files [] of
        Inl e \<Rightarrow> Inl e
      | Inr allIssues \<Rightarrow>
          (case validators_loop argLimit (crossValidators argLimit parser) files allIssues of
             Inl e \<Rightarrow> Inl e
           | Inr allIssues' \<Rightarrow> Inr (buildResponse allIssues')))"

section \<open>Notions of the specification and of the proofs\<close>

subsection \<open>Issue classes by rule id\<close>

definition is_unexpected :: "CodeIssue \<Rightarrow> bool" where
  "is_unexpected x = (ruleId x = ''CSS_UNEXPECTED_BRACE'')"

definition is_unclosed_brace :: "CodeIssue \<Rightarrow> bool" where
  "is_unclosed_brace x = (ruleId x = ''CSS_UNCLOSED_BRACE'')"

definition is_brace_issue :: "CodeIssue \<Rightarrow> bool" where
  "is_brace_issue x = (is_unexpected x \<or> is_unclosed_brace x)"

definition is_unclosed_comment :: "CodeIssue \<Rightarrow> bool" where
  "is_unclosed_comment x = (ruleId x = ''CSS_UNCLOSED_COMMENT'')"

definition is_unclosed_string :: "CodeIssue \<Rightarrow> bool" where
  "is_unclosed_string x = (ruleId x = ''CSS_UNCLOSED_STRING'')"

definition is_parse_error :: "CodeIssue \<Rightarrow> bool" where
  "is_parse_error x = (ruleId x = ''HTML_PARSE_ERROR'')"

definition is_close_issue :: "CodeIssue \<Rightarrow> bool" where
  "is_close_issue x = (ruleId x = ''HTML_UNEXPECTED_CLOSE'' \<or> ruleId x = ''HTML_TAG_MISMATCH'')"

subsection \<open>The braces of a stylesheet that lie outside strings and comments\<close>

text \<open>
  Written from steps 1 to 6 of the specification's scan, independently of the analyzer: a
  lexical mode, and the characters met outside strings and comments that are not
  themselves a delimiter. \<open>brace_excess\<close> is the number of such \<^verbatim>\<open>{\<close> minus the number of
  such \<^verbatim>\<open>}\<close>.
\<close>

datatype lex_mode = Outside | In_String char | In_Comment

definition lex_body :: "lex_mode \<Rightarrow> char option \<Rightarrow> char \<Rightarrow> char option \<Rightarrow> lex_mode \<times> bool \<times> bool" where
  "lex_body m prev c nextChar =
     (if m = Outside \<and> c = CHR ''/'' \<and> nextChar = Some CHR ''*'' then (In_Comment, True, False)
      else if m = In_Comment \<and> c = CHR ''*'' \<and> nextChar = Some CHR ''/'' then (Outside, True, False)
      else if m = In_Comment then (In_Comment, False, False)
      else if m = Outside \<and> (c = CHR 0x22 \<or> c = CHR 0x27) then (In_String c, False, False)
      else if m = In_String c \<and> prev \<noteq> Some CHR 0x5C then (Outside, False, False)
      else if m \<noteq> Outside then (m, False, False)
      else (Outside, False, True))"

fun lex_line :: "char option \<Rightarrow> string \<Rightarrow> lex_mode \<times> string \<Rightarrow> lex_mode \<times> string" where
  "lex_line prev [] ms = ms"
| "lex_line prev (c # rest) (m, code) =
     (case lex_body m prev c (char_at_0 rest) of
        (m', skip, counted) \<Rightarrow>
          if skip then lex_line (char_at_0 rest) (tl rest) (m', code)
          else lex_line (Some c) rest (m', if counted then code @ [c] else code))"

fun lex_lines :: "string list \<Rightarrow> lex_mode \<times> string \<Rightarrow> lex_mode \<times> string" where
  "lex_lines [] ms = ms"
| "lex_lines (l # ls) ms = lex_lines ls (lex_line None l ms)"

definition css_code_chars :: "string \<Rightarrow> string" where
  "css_code_chars text = snd (lex_lines (split_lines text) (Outside, []))"

definition brace_excess :: "string \<Rightarrow> int" where
  "brace_excess text =
     int (count_list (css_code_chars text) CHR ''{'') - int (count_list (css_code_chars text) CHR ''}'')"

subsection \<open>Relations between scanner states\<close>

text \<open>Two scanner states that agree on everything the loop body reads.\<close>

definition same_mode :: "css_state \<Rightarrow> css_state \<Rightarrow> bool" where
  "same_mode s t =
     (braceCount s = braceCount t \<and> inString s = inString t \<and> inComment s = inComment t \<and>
      (if inString s then stringChar s = stringChar t else True))"

definition abs_mode :: "css_state \<Rightarrow> lex_mode" where
  "abs_mode st = (if inComment st then In_Comment
                  else if inString st then In_String (hd (stringChar st)) else Outside)"

text \<open>
  The scanner state against the lexical mode and the characters counted so far: the modes
  agree, the two flags exclude each other, and the depth is the excess of braces plus the
  number of resets.
\<close>

definition css_rel :: "css_state \<Rightarrow> lex_mode \<times> string \<Rightarrow> bool" where
  "css_rel st ms =
     ((inString st \<and> inComment st) = False \<and>
      (if inString st then length (stringChar st) = 1 else True) \<and>
      fst ms = abs_mode st \<and> 0 \<le> braceCount st \<and>
      braceCount st =
        int (count_list (snd ms) CHR ''{'') - int (count_list (snd ms) CHR ''}'') + int (length (issues st)))"

subsection \<open>States of the markup analyzer\<close>

text \<open>The state after the callbacks for a list of events, from the initial state.\<close>

definition html_reachable :: "string \<Rightarrow> tag_event list \<Rightarrow> html_state" where
  "html_reachable p evs = foldl (html_event p) html_init evs"

text \<open>The number of newline characters in the text events of a list of events.\<close>

definition newlines_in :: "tag_event list \<Rightarrow> nat" where
  "newlines_in evs =
     sum_list (map (\<lambda>ev. case ev of TextNode t \<Rightarrow> count_newlines t | _ \<Rightarrow> 0) evs)"

text \<open>
  The frame \<open>t\<close> was pushed by an open-tag event of \<open>evs\<close>: it has the lowercased name of
  that event, and its line is 1 plus the newlines of the text events before that event.
\<close>

definition opened_in :: "tag_event list \<Rightarrow> TagFrame \<Rightarrow> bool" where
  "opened_in evs t =
     (\<exists>before nm attribs after.
        evs = before @ OpenTag nm attribs # after \<and>
        frame_name t = toLowerCase nm \<and>
        frame_line t = 1 + newlines_in before)"

subsection \<open>Rule ids\<close>

text \<open>The twelve rule ids that occur in the source, in the order of the specification's list.\<close>

definition code_rule_ids :: "string list" where
  "code_rule_ids =
     [''CSS_UNEXPECTED_BRACE'', ''CSS_UNCLOSED_BRACE'', ''CSS_UNCLOSED_COMMENT'', ''CSS_UNCLOSED_STRING'',
      ''HTML_UNEXPECTED_CLOSE'', ''HTML_TAG_MISMATCH'', ''HTML_UNCLOSED_TAG'', ''HTML_PARSE_ERROR'',
      ''JS_SYNTAX_ERROR'', ''JS_PARSE_ERROR'', ''CSS_CLASS_UNDEFINED'', ''CSS_ID_UNDEFINED'']"

text \<open>The taxonomy as the specification spells it.\<close>

definition spec_rule_ids :: "string list" where
  "spec_rule_ids =
     [''unbalanced-brace-unexpected'', ''unbalanced-brace-unclosed'', ''comment-unclosed'', ''string-unclosed'',
      ''tag-unexpected-close'', ''tag-mismatch'', ''tag-unclosed'', ''markup-parse-error'',
      ''script-syntax-error'', ''script-parse-error'', ''class-undefined'', ''id-undefined'']"

definition known_rule :: "CodeIssue \<Rightarrow> bool" where
  "known_rule x = (ruleId x \<in> set code_rule_ids)"


subsection \<open>Lists too long to spread\<close>

text \<open>Some list that \<open>analyze\<close> spreads into a call is longer than the engine allows.\<close>

definition overlong_spread :: "nat \<Rightarrow> tag_source \<Rightarrow> script_parser \<Rightarrow> FileInput list \<Rightarrow> bool" where
  "overlong_spread argLimit parser acorn files =
     (list_ex (\<lambda>file. argLimit < length (single_file_issues parser acorn file)) files \<or>
      list_ex (\<lambda>file. is_markup_path (path file) \<and> argLimit < length (extractHTMLUsage parser file)) files \<or>
      argLimit < length (validate parser files))"

subsection \<open>A tag-event source for the examples\<close>



section \<open>Stylesheet analyzer: proofs\<close>

subsection \<open>Lines, and the issues of a scan\<close>

lemma split_lines_nonempty: "split_lines s \<noteq> []"
  by (induction s) simp_all

lemma split_lines_append:
  "split_lines (a @ b) =
     butlast (split_lines a) @ [last (split_lines a) @ hd (split_lines b)] @ tl (split_lines b)"
proof (induction a)
  case Nil
  then show ?case using split_lines_nonempty[of b] by simp
next
  case (Cons c a)
  have ne: "split_lines a \<noteq> []" by (rule split_lines_nonempty)
  show ?case
  proof (cases "c = CHR 0x0A")
    case True
    then show ?thesis using Cons ne by simp
  next
    case False
    show ?thesis
    proof (cases "butlast (split_lines a) = []")
      case True
      then obtain x where x: "split_lines a = [x]"
        using ne by (metis append_butlast_last_id append_Nil)
      show ?thesis using False Cons x by simp
    next
      case nb: False
      then obtain y ys where y: "split_lines a = y # ys" "ys \<noteq> []"
        using ne by (cases "split_lines a") (auto split: if_splits)
      show ?thesis using False Cons y by simp
    qed
  qed
qed

lemma scan_lines_append:
  "scan_lines p l (xs @ ys) st = scan_lines p (l + length xs) ys (scan_lines p l xs st)"
  by (induction xs arbitrary: l st) simp_all

lemma count_brace_issues:
  "issues (count_brace p l i c st) = issues st \<or>
   issues (count_brace p l i c st) = issues st @ [css_unexpected_brace p l i]"
  by (simp add: count_brace_def Let_def)

lemma css_body_issues:
  "issues (fst (css_body p l i prev c nx st)) = issues st \<or>
   issues (fst (css_body p l i prev c nx st)) = issues st @ [css_unexpected_brace p l i]"
  using count_brace_issues[of p l i c st] by (simp add: css_body_def)

lemma scan_line_issues:
  "\<exists>ns. issues (scan_line p l i prev cs st) = issues st @ ns \<and> list_all is_unexpected ns"
proof (induction cs arbitrary: st i prev rule: length_induct)
  case (1 cs)
  show ?case
  proof (cases cs)
    case Nil
    then show ?thesis by simp
  next
    case (Cons c rest)
    obtain s1 k1 where b: "css_body p l i prev c (char_at_0 rest) st = (s1, k1)" by force
    from css_body_issues[of p l i prev c "char_at_0 rest" st] b
    obtain n1 where n1: "issues s1 = issues st @ n1" "list_all is_unexpected n1"
      by (auto simp: is_unexpected_def css_unexpected_brace_def)
    have "\<exists>ns. issues (scan_line p l (if k1 then i + 2 else i + 1) (if k1 then char_at_0 rest else Some c)
                (if k1 then tl rest else rest) s1) = issues s1 @ ns \<and> list_all is_unexpected ns"
      using 1 Cons by simp
    then obtain n2 where n2: "issues (scan_line p l (if k1 then i + 2 else i + 1) (if k1 then char_at_0 rest else Some c)
                (if k1 then tl rest else rest) s1) = issues s1 @ n2" "list_all is_unexpected n2"
      by blast
    have "issues (scan_line p l i prev cs st) = issues st @ (n1 @ n2)"
      unfolding Cons scan_line.simps b using n1 n2 by (cases k1) simp_all
    then show ?thesis using n1 n2 by (metis list_all_append)
  qed
qed

lemma scan_lines_issues:
  "\<exists>ns. issues (scan_lines p l ls st) = issues st @ ns \<and> list_all is_unexpected ns"
proof (induction ls arbitrary: l st)
  case Nil
  then show ?case by simp
next
  case (Cons x ls)
  obtain n1 where n1: "issues (scan_line p l 0 None x st) = issues st @ n1" "list_all is_unexpected n1"
    using scan_line_issues by blast
  obtain n2 where n2: "issues (scan_lines p (l + 1) ls (scan_line p l 0 None x st)) =
       issues (scan_line p l 0 None x st) @ n2" "list_all is_unexpected n2"
    using Cons by blast
  have "issues (scan_lines p l (x # ls) st) = issues st @ (n1 @ n2)"
    using n1 n2 by simp
  then show ?case using n1 n2 by (metis list_all_append)
qed

subsection \<open>Scanning the same text from two states\<close>

lemma count_brace_sim:
  assumes "same_mode s t"
  shows "same_mode (count_brace p l i c s) (count_brace p' l' i' c t) \<and>
         length (issues (count_brace p l i c s)) + length (issues t) =
         length (issues (count_brace p' l' i' c t)) + length (issues s)"
  using assms by (auto simp: same_mode_def count_brace_def Let_def)

lemma css_body_sim:
  assumes "same_mode s t" "(prev = Some (CHR 0x5C)) = (prev' = Some (CHR 0x5C))"
  shows "same_mode (fst (css_body p l i prev c nx s)) (fst (css_body p' l' i' prev' c nx t)) \<and>
         snd (css_body p l i prev c nx s) = snd (css_body p' l' i' prev' c nx t) \<and>
         length (issues (fst (css_body p l i prev c nx s))) + length (issues t) =
         length (issues (fst (css_body p' l' i' prev' c nx t))) + length (issues s)"
proof -
  note cb = count_brace_sim[OF assms(1), of p l i c p' l' i']
  have m: "inString t = inString s" "inComment t = inComment s" "braceCount t = braceCount s"
    using assms(1) by (simp_all add: same_mode_def)
  have m2: "inString s \<Longrightarrow> stringChar t = stringChar s"
    using assms(1) by (simp add: same_mode_def)
  show ?thesis
  proof (cases "inComment s")
    case True
    then show ?thesis using m m2 by (simp add: css_body_def same_mode_def)
  next
    case nc: False
    show ?thesis
    proof (cases "inString s")
      case True
      then show ?thesis using m m2 nc assms(2) by (simp add: css_body_def same_mode_def)
    next
      case False
      then show ?thesis using m nc cb by (simp add: css_body_def same_mode_def)
    qed
  qed
qed

lemma scan_line_sim:
  assumes "same_mode s t" "(prev = Some (CHR 0x5C)) = (prev' = Some (CHR 0x5C))"
  shows "same_mode (scan_line p l i prev cs s) (scan_line p' l' i' prev' cs t) \<and>
         length (issues (scan_line p l i prev cs s)) + length (issues t) =
         length (issues (scan_line p' l' i' prev' cs t)) + length (issues s)"
  using assms
proof (induction cs arbitrary: s t i i' prev prev' rule: length_induct)
  case (1 cs)
  show ?case
  proof (cases cs)
    case Nil
    then show ?thesis using 1 by simp
  next
    case (Cons c rest)
    have IH: "\<And>ys s t i i' prev prev'. length ys < length cs \<Longrightarrow> same_mode s t \<Longrightarrow>
       (prev = Some (CHR 0x5C)) = (prev' = Some (CHR 0x5C)) \<Longrightarrow>
       same_mode (scan_line p l i prev ys s) (scan_line p' l' i' prev' ys t) \<and>
         length (issues (scan_line p l i prev ys s)) + length (issues t) =
         length (issues (scan_line p' l' i' prev' ys t)) + length (issues s)"
      using 1 by blast
    obtain s1 k1 where b1: "css_body p l i prev c (char_at_0 rest) s = (s1, k1)" by force
    obtain t1 k2 where b2: "css_body p' l' i' prev' c (char_at_0 rest) t = (t1, k2)" by force
    from css_body_sim[OF "1.prems", of p l i c "char_at_0 rest" p' l' i'] b1 b2
    have sm: "same_mode s1 t1" and k: "k2 = k1"
      and len: "length (issues s1) + length (issues t) = length (issues t1) + length (issues s)"
      by simp_all
    show ?thesis
    proof (cases k1)
      case True
      have "length (tl rest) < length cs" using Cons by simp
      from IH[OF this sm, of "char_at_0 rest" "char_at_0 rest" "i + 2" "i' + 2"] len
      show ?thesis unfolding Cons scan_line.simps b1 b2 k using True by simp
    next
      case False
      have "length rest < length cs" using Cons by simp
      from IH[OF this sm, of "Some c" "Some c" "i + 1" "i' + 1"] len
      show ?thesis unfolding Cons scan_line.simps b1 b2 k using False by simp
    qed
  qed
qed

lemma scan_lines_sim:
  assumes "same_mode s t"
  shows "same_mode (scan_lines p l ls s) (scan_lines p' l' ls t) \<and>
         length (issues (scan_lines p l ls s)) + length (issues t) =
         length (issues (scan_lines p' l' ls t)) + length (issues s)"
  using assms
proof (induction ls arbitrary: s t l l')
  case Nil
  then show ?case by simp
next
  case (Cons x ls)
  from scan_line_sim[OF Cons.prems, of None None p l 0 x p' l' 0]
  have sm: "same_mode (scan_line p l 0 None x s) (scan_line p' l' 0 None x t)"
    and len: "length (issues (scan_line p l 0 None x s)) + length (issues t) =
         length (issues (scan_line p' l' 0 None x t)) + length (issues s)"
    by simp_all
  from Cons.IH[OF sm, of "l + 1" "l' + 1"] len
  show ?case by simp
qed

subsection \<open>Splitting a line at a character that ends no delimiter\<close>

lemma css_body_next_irrelevant:
  "x \<noteq> CHR ''*'' \<Longrightarrow> x \<noteq> CHR ''/'' \<Longrightarrow>
   css_body p l i prev c (Some x) st = css_body p l i prev c None st"
  by (simp add: css_body_def)

lemma css_body_skip_next:
  "snd (css_body p l i prev c nx st) \<Longrightarrow> nx = Some CHR ''*'' \<or> nx = Some CHR ''/''"
  by (simp add: css_body_def split: if_splits)

lemma char_at_0_append:
  "char_at_0 (rest @ x # b) = (if rest = [] then Some x else char_at_0 rest)"
  by (cases rest) (simp_all add: char_at_0_def)

lemma char_at_0_Some: "char_at_0 rest = Some d \<Longrightarrow> rest \<noteq> [] \<and> hd rest = d"
  by (cases rest) (simp_all add: char_at_0_def)

lemma scan_line_split:
  assumes x: "x \<noteq> CHR ''*''" "x \<noteq> CHR ''/''"
  shows "scan_line p l i prev (a @ x # b) st =
         scan_line p l (i + length a) (if a = [] then prev else Some (last a)) (x # b)
           (scan_line p l i prev a st)"
proof (induction a arbitrary: st i prev rule: length_induct)
  case (1 a)
  show ?case
  proof (cases a)
    case Nil
    then show ?thesis by simp
  next
    case (Cons c rest)
    have IH: "\<And>ys st i prev. length ys < length a \<Longrightarrow>
        scan_line p l i prev (ys @ x # b) st =
         scan_line p l (i + length ys) (if ys = [] then prev else Some (last ys)) (x # b)
           (scan_line p l i prev ys st)"
      using 1 by blast
    obtain s1 k1 where b1: "css_body p l i prev c (char_at_0 rest) st = (s1, k1)" by force
    have same: "css_body p l i prev c (char_at_0 (rest @ x # b)) st = (s1, k1)"
    proof (cases "rest = []")
      case True
      then show ?thesis using b1 css_body_next_irrelevant[OF x, of p l i prev c st]
        by (simp add: char_at_0_def)
    next
      case False
      then show ?thesis using b1 by (simp add: char_at_0_append)
    qed
    show ?thesis
    proof (cases k1)
      case True
      from css_body_skip_next[of p l i prev c "char_at_0 rest" st] b1 True
      obtain d where d: "char_at_0 rest = Some d" by auto
      from char_at_0_Some[OF d] obtain rest' where r: "rest = d # rest'"
        by (cases rest) auto
      have lt: "length rest' < length a" using Cons r by simp
      have nx: "char_at_0 (rest @ x # b) = Some d" using r by (simp add: char_at_0_def)
      have L: "scan_line p l i prev (a @ x # b) st = scan_line p l (i + 2) (Some d) (rest' @ x # b) s1"
        unfolding Cons append_Cons scan_line.simps same using True nx r by simp
      have R: "scan_line p l i prev a st = scan_line p l (i + 2) (Some d) rest' s1"
        unfolding Cons scan_line.simps b1 using True d r by simp
      show ?thesis unfolding L R IH[OF lt] using Cons r by simp
    next
      case False
      have lt: "length rest < length a" using Cons by simp
      have L: "scan_line p l i prev (a @ x # b) st = scan_line p l (i + 1) (Some c) (rest @ x # b) s1"
        unfolding Cons append_Cons scan_line.simps same using False by simp
      have R: "scan_line p l i prev a st = scan_line p l (i + 1) (Some c) rest s1"
        unfolding Cons scan_line.simps b1 using False by simp
      show ?thesis unfolding L R IH[OF lt] using Cons by simp
    qed
  qed
qed

subsection \<open>One unmatched closing brace\<close>

lemma css_eof_brace_filter:
  "filter is_brace_issue (css_eof p len st) =
     filter is_brace_issue (issues st) @ (if braceCount st > 0 then [css_unclosed_brace p (braceCount st) len] else [])"
  by (simp add: css_eof_def is_brace_issue_def is_unexpected_def is_unclosed_brace_def
      css_unclosed_brace_def css_unclosed_comment_def css_unclosed_string_def)

lemma filter_all_unexpected: "list_all is_unexpected ns \<Longrightarrow> filter is_brace_issue ns = ns"
  by (induction ns) (simp_all add: is_brace_issue_def)

lemma css_body_close_at_depth_0:
  assumes "\<not> inString st" "\<not> inComment st" "braceCount st \<le> 0"
  shows "css_body p l i prev (CHR ''}'') nx st =
           (st\<lparr>braceCount := 0, issues := issues st @ [css_unexpected_brace p l i]\<rparr>, False)"
  using assms by (simp add: css_body_def count_brace_def Let_def)

lemma css_one_unmatched_close:
  assumes clean: "CSS_analyze \<lparr>path = p, content = pre\<rparr> = []"
      and rest: "filter is_brace_issue (CSS_analyze \<lparr>path = p, content = post\<rparr>) = []"
  shows "filter is_brace_issue (CSS_analyze \<lparr>path = p, content = pre @ ''}'' @ post\<rparr>) =
           [css_unexpected_brace p (length (split_lines pre) - 1) (length (last (split_lines pre)))]"
proof -
  define A where "A = butlast (split_lines pre)"
  define lp where "lp = last (split_lines pre)"
  define hq where "hq = hd (split_lines post)"
  define B where "B = tl (split_lines post)"
  have pre: "split_lines pre = A @ [lp]"
    unfolding A_def lp_def using split_lines_nonempty[of pre] by simp
  have post: "split_lines post = hq # B"
    unfolding hq_def B_def using split_lines_nonempty[of post] by simp
  have full: "split_lines (pre @ ''}'' @ post) = A @ [lp @ CHR ''}'' # hq] @ B"
    using split_lines_append[of pre "CHR ''}'' # post"] post
    by (simp add: A_def lp_def)
  define S0 where "S0 = scan_lines p 0 A css_init"
  define S1 where "S1 = scan_line p (length A) 0 None lp S0"
  have S1: "scan_lines p 0 (split_lines pre) css_init = S1"
    unfolding pre scan_lines_append S1_def S0_def by simp
  from clean have eof1: "css_eof p (length (split_lines pre)) S1 = []"
    by (simp add: CSS_analyze_def Let_def S1)
  then have c1: "issues S1 = []" "\<not> inString S1" "\<not> inComment S1" "braceCount S1 \<le> 0"
    by (auto simp: css_eof_def split: if_splits)
  define S2 where "S2 = S1\<lparr>braceCount := 0, issues := [css_unexpected_brace p (length A) (length lp)]\<rparr>"
  have line: "scan_line p (length A) 0 None (lp @ CHR ''}'' # hq) S0 =
               scan_line p (length A) (length lp + 1) (Some (CHR ''}'')) hq S2"
    unfolding scan_line_split[of "CHR ''}''", simplified] S1_def[symmetric] scan_line.simps
      css_body_close_at_depth_0[OF c1(2,3,4)] S2_def
    using c1(1) by simp
  define F where "F = scan_lines p (length A + 1) B (scan_line p (length A) (length lp + 1) (Some (CHR ''}'')) hq S2)"
  have F: "scan_lines p 0 (split_lines (pre @ ''}'' @ post)) css_init = F"
    unfolding full scan_lines_append F_def S0_def[symmetric] using line by simp
  define T1 where "T1 = scan_line p 0 0 None hq css_init"
  define G where "G = scan_lines p 1 B T1"
  have G: "scan_lines p 0 (split_lines post) css_init = G"
    unfolding post G_def T1_def by simp
  have sm0: "same_mode S2 css_init"
    using c1 by (simp add: same_mode_def S2_def css_init_def)
  from scan_line_sim[OF sm0, of "Some (CHR ''}'')" None p "length A" "length lp + 1" hq p 0 0]
  have sm1: "same_mode (scan_line p (length A) (length lp + 1) (Some (CHR ''}'')) hq S2) T1"
    and len1: "length (issues (scan_line p (length A) (length lp + 1) (Some (CHR ''}'')) hq S2)) =
       length (issues T1) + 1"
    by (simp_all add: T1_def S2_def css_init_def)
  from scan_lines_sim[OF sm1, of p "length A + 1" B p 1]
  have sm2: "same_mode F G"
    and len2: "length (issues F) + length (issues T1) = length (issues G) +
        length (issues (scan_line p (length A) (length lp + 1) (Some (CHR ''}'')) hq S2))"
    by (simp_all add: F_def G_def)
  obtain ng where ng: "issues G = ng" "list_all is_unexpected ng"
    using scan_lines_issues[of p 0 "split_lines post" css_init] G by (auto simp: css_init_def)
  from rest have eofG: "filter is_brace_issue (css_eof p (length (split_lines post)) G) = []"
    by (simp add: CSS_analyze_def Let_def G)
  have g: "issues G = []" "\<not> braceCount G > 0"
    using eofG ng filter_all_unexpected[OF ng(2)]
    by (auto simp: css_eof_brace_filter split: if_splits)
  have lenF: "length (issues F) = 1" using len1 len2 g(1) by simp
  obtain n1 where n1: "issues (scan_line p (length A) (length lp + 1) (Some (CHR ''}'')) hq S2) = issues S2 @ n1"
    using scan_line_issues by blast
  obtain n2 where n2: "issues F = issues (scan_line p (length A) (length lp + 1) (Some (CHR ''}'')) hq S2) @ n2"
    unfolding F_def using scan_lines_issues by blast
  have issF: "issues F = [css_unexpected_brace p (length A) (length lp)]"
    using n1 n2 lenF by (simp add: S2_def)
  have bF: "\<not> braceCount F > 0" using sm2 g(2) by (simp add: same_mode_def)
  have F': "scan_lines p 0 (split_lines (pre @ CHR ''}'' # post)) css_init = F"
    using F by simp
  have a: "length A = length (split_lines pre) - 1" by (simp add: A_def)
  have "filter is_brace_issue (CSS_analyze \<lparr>path = p, content = pre @ ''}'' @ post\<rparr>) =
          [css_unexpected_brace p (length A) (length lp)]"
    using bF issF
    by (simp add: CSS_analyze_def Let_def F' css_eof_brace_filter is_brace_issue_def
        is_unexpected_def css_unexpected_brace_def)
  then show ?thesis unfolding a lp_def .
qed

lemma length_split_lines: "length (split_lines s) = Suc (count_list s (CHR 0x0A))"
proof (induction s)
  case Nil
  then show ?case by simp
next
  case (Cons c cs)
  have "split_lines cs \<noteq> []" by (rule split_lines_nonempty)
  then show ?case using Cons by simp
qed

lemma takeWhile_snoc_stop: "\<not> P y \<Longrightarrow> takeWhile P (xs @ [y]) = takeWhile P xs"
  by (induction xs) simp_all

lemma length_last_split_lines:
  "length (last (split_lines s)) = length (takeWhile (\<lambda>c. c \<noteq> CHR 0x0A) (rev s))"
proof (induction s)
  case Nil
  then show ?case by simp
next
  case (Cons c cs)
  have ne: "split_lines cs \<noteq> []" by (rule split_lines_nonempty)
  show ?case
  proof (cases "c = CHR 0x0A")
    case True
    have "takeWhile (\<lambda>c. c \<noteq> CHR 0x0A) (rev cs @ [CHR 0x0A]) = takeWhile (\<lambda>c. c \<noteq> CHR 0x0A) (rev cs)"
      by (rule takeWhile_snoc_stop) simp
    then show ?thesis using True Cons ne by simp
  next
    case False
    show ?thesis
    proof (cases "CHR 0x0A \<in> set cs")
      case True
      then have "count_list cs (CHR 0x0A) \<noteq> 0" by (simp add: count_list_0_iff)
      then have "tl (split_lines cs) \<noteq> []"
        using length_split_lines[of cs] by (cases "split_lines cs") auto
      then have l: "last (split_lines (c # cs)) = last (split_lines cs)"
        using False ne by (cases "split_lines cs") auto
      have "takeWhile (\<lambda>c. c \<noteq> CHR 0x0A) (rev cs @ [c]) = takeWhile (\<lambda>c. c \<noteq> CHR 0x0A) (rev cs)"
        using True by (intro takeWhile_append1[of "CHR 0x0A"]) simp_all
      then show ?thesis using l Cons by simp
    next
      case nin: False
      then have "count_list cs (CHR 0x0A) = 0" by (simp add: count_list_0_iff)
      then obtain x where x: "split_lines cs = [x]"
        using length_split_lines[of cs] by (cases "split_lines cs") auto
      have tw: "takeWhile (\<lambda>c. c \<noteq> CHR 0x0A) (rev cs) = rev cs"
        using nin by (auto simp: takeWhile_eq_all_conv)
      have t2: "takeWhile (\<lambda>c. c \<noteq> CHR 0x0A) (rev cs @ [c]) = rev cs @ [c]"
        using nin False by (auto simp: takeWhile_eq_all_conv)
      have r: "length (takeWhile (\<lambda>c. c \<noteq> CHR 0x0A) (rev (c # cs))) = Suc (length cs)"
        unfolding rev.simps t2 by simp
      have "length x = length cs" using Cons x tw by simp
      then have "length (last (split_lines (c # cs))) = Suc (length cs)"
        using x False by simp
      then show ?thesis unfolding r .
    qed
  qed
qed

text \<open>
  Claim C3. A \<^verbatim>\<open>}\<close> met outside strings and comments at depth 0 adds exactly one
  unexpected-closing-brace error, whose line is the 1-based number of the line and whose
  column is the 0-based index of that character, and leaves the depth at 0. Hence, for a
  text \<open>pre\<close> on which the analyzer is silent and a text \<open>post\<close> on which it reports no
  brace issue, the text \<open>pre } post\<close> has exactly one brace issue: the unexpected closing
  brace, at the line after the newlines of \<open>pre\<close> and at the column that is the number of
  characters after the last of them.
\<close>

theorem css_unexpected_close_once:
  "(\<not> inString st \<and> \<not> inComment st \<and> braceCount st = 0 \<longrightarrow>
      css_body p lineNum i prev (CHR ''}'') nextChar st =
        (st\<lparr>braceCount := 0,
            issues := issues st @
              [\<lparr>message = ''Unexpected closing brace'', filePath = p, line = lineNum + 1, column = i,
                severity = Error, ruleId = ''CSS_UNEXPECTED_BRACE'', source = ''css-analyzer''\<rparr>]\<rparr>,
         False)) \<and>
   (CSS_analyze \<lparr>path = p, content = pre\<rparr> = [] \<and>
    filter is_brace_issue (CSS_analyze \<lparr>path = p, content = post\<rparr>) = [] \<longrightarrow>
      filter is_brace_issue (CSS_analyze \<lparr>path = p, content = pre @ ''}'' @ post\<rparr>) =
        [\<lparr>message = ''Unexpected closing brace'', filePath = p,
          line = count_list pre (CHR 0x0A) + 1,
          column = length (takeWhile (\<lambda>c. c \<noteq> CHR 0x0A) (rev pre)),
          severity = Error, ruleId = ''CSS_UNEXPECTED_BRACE'', source = ''css-analyzer''\<rparr>])"
proof (intro conjI impI)
  assume "\<not> inString st \<and> \<not> inComment st \<and> braceCount st = 0"
  then show "css_body p lineNum i prev (CHR ''}'') nextChar st =
        (st\<lparr>braceCount := 0,
            issues := issues st @
              [\<lparr>message = ''Unexpected closing brace'', filePath = p, line = lineNum + 1, column = i,
                severity = Error, ruleId = ''CSS_UNEXPECTED_BRACE'', source = ''css-analyzer''\<rparr>]\<rparr>,
         False)"
    using css_body_close_at_depth_0[of st p lineNum i prev nextChar]
    by (simp add: css_unexpected_brace_def)
next
  assume "CSS_analyze \<lparr>path = p, content = pre\<rparr> = [] \<and>
    filter is_brace_issue (CSS_analyze \<lparr>path = p, content = post\<rparr>) = []"
  then have "filter is_brace_issue (CSS_analyze \<lparr>path = p, content = pre @ ''}'' @ post\<rparr>) =
        [css_unexpected_brace p (length (split_lines pre) - 1) (length (last (split_lines pre)))]"
    using css_one_unmatched_close[of p pre post] by blast
  then show "filter is_brace_issue (CSS_analyze \<lparr>path = p, content = pre @ ''}'' @ post\<rparr>) =
        [\<lparr>message = ''Unexpected closing brace'', filePath = p,
          line = count_list pre (CHR 0x0A) + 1,
          column = length (takeWhile (\<lambda>c. c \<noteq> CHR 0x0A) (rev pre)),
          severity = Error, ruleId = ''CSS_UNEXPECTED_BRACE'', source = ''css-analyzer''\<rparr>]"
    by (simp add: css_unexpected_brace_def length_split_lines length_last_split_lines)
qed

theorem css_unexpected_close_once_witness:
  "css_body ''a.css'' 4 7 None (CHR ''}'') None css_init =
     (css_init\<lparr>braceCount := 0,
        issues := [\<lparr>message = ''Unexpected closing brace'', filePath = ''a.css'', line = 5, column = 7,
                    severity = Error, ruleId = ''CSS_UNEXPECTED_BRACE'', source = ''css-analyzer''\<rparr>]\<rparr>,
      False) \<and>
   filter is_brace_issue
     (CSS_analyze \<lparr>path = ''a.css'',
        content = (''/**/'' @ [CHR 0x0A] @ ''a{} '') @ ''}'' @ ([CHR 0x0A] @ ''b{c{}}'')\<rparr>) =
     [\<lparr>message = ''Unexpected closing brace'', filePath = ''a.css'', line = 2, column = 4,
       severity = Error, ruleId = ''CSS_UNEXPECTED_BRACE'', source = ''css-analyzer''\<rparr>]"
proof -
  have h0: "\<not> inString css_init \<and> \<not> inComment css_init \<and> braceCount css_init = 0"
    by (simp add: css_init_def)
  have h1: "CSS_analyze \<lparr>path = ''a.css'', content = ''/**/'' @ [CHR 0x0A] @ ''a{} ''\<rparr> = []"
    by code_simp
  have h2: "filter is_brace_issue (CSS_analyze \<lparr>path = ''a.css'', content = [CHR 0x0A] @ ''b{c{}}''\<rparr>) = []"
    by code_simp
  have i0: "issues css_init = []" by (simp add: css_init_def)
  from css_unexpected_close_once[of css_init "''a.css''" 4 7 None None
      "''/**/'' @ [CHR 0x0A] @ ''a{} ''" "[CHR 0x0A] @ ''b{c{}}''"] h0 h1 h2
  show ?thesis by (simp add: i0)
qed

subsection \<open>The depth at the end of the scan\<close>

lemma singleton_eq_hd: "length s = 1 \<Longrightarrow> ([c] = s) = (hd s = c)"
  by (cases s) auto

lemma count_list_snoc: "count_list (xs @ [c]) x = count_list xs x + (if c = x then 1 else 0)"
  by (induction xs) simp_all

lemma count_brace_rel:
  assumes "0 \<le> braceCount st"
    "braceCount st = int (count_list code CHR ''{'') - int (count_list code CHR ''}'') + int (length (issues st))"
  shows "braceCount (count_brace p l i c st) =
          int (count_list (code @ [c]) CHR ''{'') - int (count_list (code @ [c]) CHR ''}'')
            + int (length (issues (count_brace p l i c st))) \<and>
         0 \<le> braceCount (count_brace p l i c st) \<and>
         inString (count_brace p l i c st) = inString st \<and>
         inComment (count_brace p l i c st) = inComment st \<and>
         stringChar (count_brace p l i c st) = stringChar st"
  using assms by (simp add: count_brace_def Let_def count_list_snoc)

lemma css_body_rel:
  assumes r: "css_rel st (m, code)"
  shows "css_rel (fst (css_body p l i prev c nx st))
           (fst (lex_body m prev c nx),
            if snd (snd (lex_body m prev c nx)) then code @ [c] else code) \<and>
         snd (css_body p l i prev c nx st) = fst (snd (lex_body m prev c nx))"
proof -
  have m: "m = abs_mode st" and ex: "\<not> (inString st \<and> inComment st)"
    and nn: "0 \<le> braceCount st"
    and bc: "braceCount st = int (count_list code CHR ''{'') - int (count_list code CHR ''}'') + int (length (issues st))"
    using r by (simp_all add: css_rel_def)
  have sc: "inString st \<Longrightarrow> length (stringChar st) = 1"
    using r by (simp add: css_rel_def)
  note cb = count_brace_rel[OF nn bc, of p l i c]
  show ?thesis
  proof (cases "inComment st")
    case True
    then have "\<not> inString st" using ex by simp
    then show ?thesis using True m nn bc
      by (simp add: css_body_def lex_body_def css_rel_def abs_mode_def)
  next
    case nc: False
    show ?thesis
    proof (cases "inString st")
      case True
      have e: "([c] = stringChar st) = (hd (stringChar st) = c)"
        using singleton_eq_hd[OF sc[OF True]] .
      show ?thesis using True nc m nn bc sc e
        by (auto simp add: css_body_def lex_body_def css_rel_def abs_mode_def)
    next
      case False
      then show ?thesis using nc m nn bc cb
        by (simp add: css_body_def lex_body_def css_rel_def abs_mode_def)
    qed
  qed
qed

lemma scan_line_rel:
  "css_rel st ms \<Longrightarrow> css_rel (scan_line p l i prev cs st) (lex_line prev cs ms)"
proof (induction cs arbitrary: st ms i prev rule: length_induct)
  case (1 cs)
  obtain m code where ms: "ms = (m, code)" by (cases ms)
  show ?case
  proof (cases cs)
    case Nil
    then show ?thesis using 1 by simp
  next
    case (Cons c rest)
    have IH: "\<And>ys st ms i prev. length ys < length cs \<Longrightarrow> css_rel st ms \<Longrightarrow>
        css_rel (scan_line p l i prev ys st) (lex_line prev ys ms)"
      using 1 by blast
    obtain s1 k1 where b1: "css_body p l i prev c (char_at_0 rest) st = (s1, k1)" by force
    obtain m1 k2 cnt where b2: "lex_body m prev c (char_at_0 rest) = (m1, k2, cnt)"
      by (metis prod_cases3)
    from css_body_rel[OF "1.prems"[unfolded ms], of p l i prev c "char_at_0 rest"] b1 b2
    have r1: "css_rel s1 (m1, if cnt then code @ [c] else code)" and k: "k2 = k1"
      by simp_all
    have skipcnt: "k1 \<Longrightarrow> \<not> cnt"
      using b2 k by (auto simp: lex_body_def split: if_splits)
    show ?thesis
    proof (cases k1)
      case True
      have lt: "length (tl rest) < length cs" using Cons by simp
      have r1': "css_rel s1 (m1, code)" using r1 skipcnt[OF True] by simp
      from IH[OF lt r1', of "i + 2" "char_at_0 rest"]
      show ?thesis unfolding Cons ms scan_line.simps lex_line.simps b1 b2 k using True by simp
    next
      case False
      have lt: "length rest < length cs" using Cons by simp
      from IH[OF lt r1, of "i + 1" "Some c"]
      show ?thesis unfolding Cons ms scan_line.simps lex_line.simps b1 b2 k using False by simp
    qed
  qed
qed

lemma scan_lines_rel:
  "css_rel st ms \<Longrightarrow> css_rel (scan_lines p l ls st) (lex_lines ls ms)"
proof (induction ls arbitrary: st ms l)
  case Nil
  then show ?case by simp
next
  case (Cons x ls)
  from Cons.IH[OF scan_line_rel[OF Cons.prems, of p l 0 None x], of "l + 1"]
  show ?case by simp
qed

lemma css_rel_init: "css_rel css_init (Outside, [])"
  by (simp add: css_rel_def css_init_def abs_mode_def)

lemma css_final_rel:
  "css_rel (scan_lines p 0 (split_lines text) css_init) (lex_lines (split_lines text) (Outside, []))"
  by (rule scan_lines_rel[OF css_rel_init])

lemma filter_none_unexpected:
  "list_all is_unexpected ns \<Longrightarrow> filter is_unclosed_brace ns = [] \<and> filter is_unexpected ns = ns
     \<and> list_ex is_unclosed_comment ns = False \<and> list_ex is_unclosed_string ns = False"
  by (induction ns)
     (auto simp: is_unexpected_def is_unclosed_brace_def is_unclosed_comment_def is_unclosed_string_def)

lemma css_comment_string_exclusive:
  "(list_ex is_unclosed_comment (CSS_analyze f) \<and> list_ex is_unclosed_string (CSS_analyze f)) = False"
proof -
  define F where "F = scan_lines (path f) 0 (split_lines (content f)) css_init"
  have rel: "css_rel F (lex_lines (split_lines (content f)) (Outside, []))"
    unfolding F_def by (rule css_final_rel)
  obtain ns where ns: "issues F = ns" "list_all is_unexpected ns"
    using scan_lines_issues[of "path f" 0 "split_lines (content f)" css_init]
    by (auto simp: F_def css_init_def)
  note fl = filter_none_unexpected[OF ns(2)]
  have A: "CSS_analyze f = css_eof (path f) (length (split_lines (content f))) F"
    by (simp add: CSS_analyze_def Let_def F_def)
  have excl: "(inString F \<and> inComment F) = False"
    using rel by (simp add: css_rel_def)
  show ?thesis
    unfolding A using ns(1) fl excl
    by (simp add: css_eof_def is_unclosed_comment_def is_unclosed_string_def css_unclosed_brace_def
        css_unclosed_comment_def css_unclosed_string_def)
qed

text \<open>
  Claim C5, as amended. The analyzer reports at most one unclosed-brace error. It reports
  one exactly when the depth \<open>N\<close> left at the end of the scan is positive, and \<open>N\<close> is the
  excess of \<^verbatim>\<open>{\<close> over \<^verbatim>\<open>}\<close> outside strings and comments plus the number of
  unexpected-closing-brace errors, each of which reset the depth to 0. The message of the
  error shows \<open>N\<close> in decimal, its line is the number of the last line of the text, its
  column is 0. This check does not depend on the two other end-of-file checks, but these
  two exclude each other: the scan never ends inside a comment and inside a string at once.
\<close>

theorem css_unclosed_brace_depth:
  "(let N = brace_excess (content f) + int (length (filter is_unexpected (CSS_analyze f)))
    in filter is_unclosed_brace (CSS_analyze f) =
         (if 0 < N
          then [\<lparr>message = ''Unclosed brace: '' @ string_of_int N
                              @ '' opening brace(s) without matching close'',
                  filePath = path f,
                  line = count_list (content f) (CHR 0x0A) + 1,
                  column = 0,
                  severity = Error, ruleId = ''CSS_UNCLOSED_BRACE'', source = ''css-analyzer''\<rparr>]
          else [])) \<and>
   (list_ex is_unclosed_comment (CSS_analyze f) \<and> list_ex is_unclosed_string (CSS_analyze f)) = False"
proof -
  define F where "F = scan_lines (path f) 0 (split_lines (content f)) css_init"
  have rel: "css_rel F (lex_lines (split_lines (content f)) (Outside, []))"
    unfolding F_def by (rule css_final_rel)
  obtain ns where ns: "issues F = ns" "list_all is_unexpected ns"
    using scan_lines_issues[of "path f" 0 "split_lines (content f)" css_init]
    by (auto simp: F_def css_init_def)
  note fl = filter_none_unexpected[OF ns(2)]
  have A: "CSS_analyze f = css_eof (path f) (length (split_lines (content f))) F"
    by (simp add: CSS_analyze_def Let_def F_def)
  have ux: "filter is_unexpected (CSS_analyze f) = ns"
    unfolding A using ns(1) fl
    by (simp add: css_eof_def is_unexpected_def css_unclosed_brace_def css_unclosed_comment_def
        css_unclosed_string_def)
  have depth: "braceCount F = brace_excess (content f) + int (length ns)"
    using rel ns(1) by (simp add: css_rel_def brace_excess_def css_code_chars_def)
  have ub: "filter is_unclosed_brace (CSS_analyze f) =
      (if 0 < braceCount F then [css_unclosed_brace (path f) (braceCount F) (length (split_lines (content f)))] else [])"
    unfolding A using ns(1) fl
    by (simp add: css_eof_def is_unclosed_brace_def css_unclosed_brace_def css_unclosed_comment_def
        css_unclosed_string_def)
  have two: "(list_ex is_unclosed_comment (CSS_analyze f) \<and> list_ex is_unclosed_string (CSS_analyze f)) = False"
    by (rule css_comment_string_exclusive)
  show ?thesis
    using ub two unfolding ux depth Let_def
    by (simp add: css_unclosed_brace_def length_split_lines)
qed

theorem css_unclosed_brace_depth_witness:
  "filter is_unclosed_brace
     (CSS_analyze \<lparr>path = ''a.css'', content = ''a{{{{{{\<newline>b{{{{{{}\<newline>{''\<rparr>) =
     [\<lparr>message = ''Unclosed brace: 12 opening brace(s) without matching close'',
       filePath = ''a.css'', line = 3, column = 0,
       severity = Error, ruleId = ''CSS_UNCLOSED_BRACE'', source = ''css-analyzer''\<rparr>] \<and>
   map ruleId (CSS_analyze \<lparr>path = ''a.css'', content = ''{{/*''\<rparr>) =
     [''CSS_UNCLOSED_BRACE'', ''CSS_UNCLOSED_COMMENT''] \<and>
   map ruleId (CSS_analyze \<lparr>path = ''a.css'', content = CHR ''{'' # CHR 0x22 # ''/*''\<rparr>) =
     [''CSS_UNCLOSED_BRACE'', ''CSS_UNCLOSED_STRING'']"
proof -
  have e: "brace_excess (''a{{{{{{\<newline>b{{{{{{}\<newline>{'') = 12" by code_simp
  have u: "filter is_unexpected
     (CSS_analyze \<lparr>path = ''a.css'', content = ''a{{{{{{\<newline>b{{{{{{}\<newline>{''\<rparr>) = []"
    by code_simp
  have m: "string_of_int 12 = ''12''" by code_simp
  have l: "count_list ''a{{{{{{\<newline>b{{{{{{}\<newline>{'' (CHR 0x0A) + 1 = 3" by simp
  have c: "map ruleId (CSS_analyze \<lparr>path = ''a.css'', content = ''{{/*''\<rparr>) =
     [''CSS_UNCLOSED_BRACE'', ''CSS_UNCLOSED_COMMENT'']"
    by code_simp
  have s: "map ruleId (CSS_analyze \<lparr>path = ''a.css'', content = CHR ''{'' # CHR 0x22 # ''/*''\<rparr>) =
     [''CSS_UNCLOSED_BRACE'', ''CSS_UNCLOSED_STRING'']"
    by code_simp
  from css_unclosed_brace_depth[of "\<lparr>path = ''a.css'', content = ''a{{{{{{\<newline>b{{{{{{}\<newline>{''\<rparr>"]
  have "filter is_unclosed_brace
     (CSS_analyze \<lparr>path = ''a.css'', content = ''a{{{{{{\<newline>b{{{{{{}\<newline>{''\<rparr>) =
     [\<lparr>message = ''Unclosed brace: 12 opening brace(s) without matching close'',
       filePath = ''a.css'', line = 3, column = 0,
       severity = Error, ruleId = ''CSS_UNCLOSED_BRACE'', source = ''css-analyzer''\<rparr>]"
    unfolding Let_def u by (simp add: e m l)
  then show ?thesis using c s by blast
qed

text \<open>
  Claim C5, as stated, fails: the text \<^verbatim>\<open>}{{\<close> has one more \<^verbatim>\<open>{\<close> than \<^verbatim>\<open>}\<close> outside
  strings and comments, and the unclosed-brace error reports 2, because the leading \<^verbatim>\<open>}\<close>
  was reported on its own and the depth reset.
\<close>

theorem css_unclosed_brace_count_counterexample:
  "brace_excess ''}{{'' = 1 \<and>
   CSS_analyze \<lparr>path = ''a.css'', content = ''}{{''\<rparr> =
     [\<lparr>message = ''Unexpected closing brace'', filePath = ''a.css'', line = 1, column = 0,
       severity = Error, ruleId = ''CSS_UNEXPECTED_BRACE'', source = ''css-analyzer''\<rparr>,
      \<lparr>message = ''Unclosed brace: 2 opening brace(s) without matching close'',
       filePath = ''a.css'', line = 1, column = 0,
       severity = Error, ruleId = ''CSS_UNCLOSED_BRACE'', source = ''css-analyzer''\<rparr>]"
proof -
  have 1: "brace_excess ''}{{'' = 1" by code_simp
  have 2: "CSS_analyze \<lparr>path = ''a.css'', content = ''}{{''\<rparr> =
     [\<lparr>message = ''Unexpected closing brace'', filePath = ''a.css'', line = 1, column = 0,
       severity = Error, ruleId = ''CSS_UNEXPECTED_BRACE'', source = ''css-analyzer''\<rparr>,
      \<lparr>message = ''Unclosed brace: 2 opening brace(s) without matching close'',
       filePath = ''a.css'', line = 1, column = 0,
       severity = Error, ruleId = ''CSS_UNCLOSED_BRACE'', source = ''css-analyzer''\<rparr>]"
    by code_simp
  show ?thesis using 1 2 by blast
qed

text \<open>
  The last words of claim C5 fail as well: no file makes the three end-of-file checks fire
  together.
\<close>

lemma css_three_checks_never_all_fire:
  "\<not> (list_ex is_unclosed_brace (CSS_analyze f) \<and>
      list_ex is_unclosed_comment (CSS_analyze f) \<and>
      list_ex is_unclosed_string (CSS_analyze f))"
  using css_comment_string_exclusive[of f] by blast

section \<open>Markup analyzer: proofs\<close>

subsection \<open>A mismatched closing tag\<close>

lemma char_toLowerCase_idem: "char_toLowerCase (char_toLowerCase c) = char_toLowerCase c"
proof -
  have "\<And>n::nat. n \<le> 222 \<Longrightarrow> (n + 32) mod 256 = n + 32" by simp
  then show ?thesis
    by (auto simp: char_toLowerCase_def Let_def)
qed

lemma toLowerCase_idem: "toLowerCase (toLowerCase s) = toLowerCase s"
  by (simp add: toLowerCase_def char_toLowerCase_idem)

lemma html_event_frames_lower:
  assumes "list_all (\<lambda>t. toLowerCase (frame_name t) = frame_name t) (tagStack st)"
  shows "list_all (\<lambda>t. toLowerCase (frame_name t) = frame_name t) (tagStack (html_event p st ev))"
proof (cases ev)
  case (OpenTag nm at)
  then show ?thesis using assms by (simp add: onopentag_def toLowerCase_idem)
next
  case (CloseTag nm)
  have "list_all (\<lambda>t. toLowerCase (frame_name t) = frame_name t) (butlast (tagStack st))"
    using assms by (simp add: list_all_iff) (meson in_set_butlastD)
  then show ?thesis using assms CloseTag by (simp add: onclosetag_def Let_def)
next
  case (TextNode tx)
  then show ?thesis using assms by (simp add: ontext_def)
qed

lemma html_reachable_frames_lower:
  "list_all (\<lambda>t. toLowerCase (frame_name t) = frame_name t) (tagStack (html_reachable p evs))"
proof (induction evs rule: rev_induct)
  case Nil
  then show ?case by (simp add: html_reachable_def html_init_def)
next
  case (snoc ev evs)
  then show ?case using html_event_frames_lower[of "html_reachable p evs" p ev]
    by (simp add: html_reachable_def)
qed

lemma newlines_in_snoc:
  "newlines_in (evs @ [ev]) =
     newlines_in evs + (case ev of TextNode t \<Rightarrow> count_newlines t | _ \<Rightarrow> 0)"
  by (simp add: newlines_in_def)

lemma html_reachable_snoc:
  "html_reachable p (evs @ [ev]) = html_event p (html_reachable p evs) ev"
  by (simp add: html_reachable_def)

lemma html_reachable_currentLine: "currentLine (html_reachable p evs) = 1 + newlines_in evs"
proof (induction evs rule: rev_induct)
  case Nil
  then show ?case by (simp add: html_reachable_def html_init_def newlines_in_def)
next
  case (snoc ev evs)
  show ?case
  proof (cases ev)
    case (OpenTag nm at)
    then show ?thesis using snoc
      by (simp add: html_reachable_snoc newlines_in_snoc onopentag_def)
  next
    case (CloseTag nm)
    then show ?thesis using snoc
      by (simp add: html_reachable_snoc newlines_in_snoc onclosetag_def Let_def)
  next
    case (TextNode tx)
    then show ?thesis using snoc
      by (simp add: html_reachable_snoc newlines_in_snoc ontext_def)
  qed
qed

text \<open>
  Claim C6. In any state the callbacks can reach, a close-tag event for a non-void element
  whose name differs, case ignored, from the name of the top frame of a non-empty stack
  appends exactly one mismatched-closing-tag error and changes nothing else: the stack is
  the same. The message of the error names the expected tag, which is the name of the top
  frame, and the found tag as the event spells it; its line is the current line, which is
  1 plus the number of newlines in the text events so far.
\<close>

theorem html_mismatch_stack_unchanged:
  assumes st: "st = html_reachable p evs"
    and nv: "toLowerCase name \<notin> set selfClosingTags"
    and ne: "tagStack st \<noteq> []"
    and diff: "toLowerCase (frame_name (last (tagStack st))) \<noteq> toLowerCase name"
  shows "html_event p st (CloseTag name) =
           st\<lparr>html_issues := html_issues st @
                 [\<lparr>message = ''Mismatched closing tag: expected </''
                              @ frame_name (last (tagStack st)) @ ''>, found </'' @ name @ ''>'',
                   filePath = p, line = currentLine st, column = 0,
                   severity = Error, ruleId = ''HTML_TAG_MISMATCH'', source = ''htmlparser2''\<rparr>]\<rparr> \<and>
         tagStack (html_event p st (CloseTag name)) = tagStack st \<and>
         currentLine st = 1 + newlines_in evs"
proof -
  have cl: "currentLine st = 1 + newlines_in evs"
    unfolding st by (rule html_reachable_currentLine)
  have "list_all (\<lambda>t. toLowerCase (frame_name t) = frame_name t) (tagStack st)"
    unfolding st by (rule html_reachable_frames_lower)
  then have "toLowerCase (frame_name (last (tagStack st))) = frame_name (last (tagStack st))"
    using ne by (simp add: list_all_iff)
  then have "frame_name (last (tagStack st)) \<noteq> toLowerCase name" using diff by simp
  then show ?thesis using nv ne cl
    by (simp add: onclosetag_def Let_def html_tag_mismatch_def html_issue_def)
qed

theorem html_mismatch_stack_unchanged_witness:
  "html_event ''i.html''
     (html_reachable ''i.html'' [OpenTag ''DIV'' Map.empty, TextNode ''a\<newline>b''])
     (CloseTag ''Span'') =
     \<lparr>html_issues =
        [\<lparr>message = ''Mismatched closing tag: expected </div>, found </Span>'',
          filePath = ''i.html'', line = 2, column = 0,
          severity = Error, ruleId = ''HTML_TAG_MISMATCH'', source = ''htmlparser2''\<rparr>],
      tagStack = [\<lparr>frame_name = ''div'', frame_line = 1\<rparr>],
      currentLine = 2\<rparr>"
proof -
  have lo: "toLowerCase ''DIV'' = ''div''" "toLowerCase ''Span'' = ''span''" "toLowerCase ''div'' = ''div''"
    by code_simp+
  have st: "html_reachable ''i.html'' [OpenTag ''DIV'' Map.empty, TextNode ''a\<newline>b''] =
      \<lparr>html_issues = [], tagStack = [\<lparr>frame_name = ''div'', frame_line = 1\<rparr>], currentLine = 2\<rparr>"
    by (simp add: html_reachable_def html_init_def onopentag_def ontext_def count_newlines_def
        lo selfClosingTags_def)
  have nv: "toLowerCase ''Span'' \<notin> set selfClosingTags"
    by (simp add: lo selfClosingTags_def)
  have ne: "tagStack (html_reachable ''i.html'' [OpenTag ''DIV'' Map.empty, TextNode ''a\<newline>b'']) \<noteq> []"
    by (simp add: st)
  have diff: "toLowerCase (frame_name (last (tagStack
      (html_reachable ''i.html'' [OpenTag ''DIV'' Map.empty, TextNode ''a\<newline>b''])))) \<noteq> toLowerCase ''Span''"
    by (simp add: st lo)
  from html_mismatch_stack_unchanged[OF refl nv ne diff]
  have "html_event ''i.html''
     (html_reachable ''i.html'' [OpenTag ''DIV'' Map.empty, TextNode ''a\<newline>b''])
     (CloseTag ''Span'') =
     (html_reachable ''i.html'' [OpenTag ''DIV'' Map.empty, TextNode ''a\<newline>b''])
       \<lparr>html_issues := html_issues (html_reachable ''i.html'' [OpenTag ''DIV'' Map.empty, TextNode ''a\<newline>b'']) @
                 [\<lparr>message = ''Mismatched closing tag: expected </''
                              @ frame_name (last (tagStack (html_reachable ''i.html'' [OpenTag ''DIV'' Map.empty, TextNode ''a\<newline>b''])))
                              @ ''>, found </'' @ ''Span'' @ ''>'',
                   filePath = ''i.html'',
                   line = currentLine (html_reachable ''i.html'' [OpenTag ''DIV'' Map.empty, TextNode ''a\<newline>b'']),
                   column = 0,
                   severity = Error, ruleId = ''HTML_TAG_MISMATCH'', source = ''htmlparser2''\<rparr>]\<rparr>"
    by (rule conjunct1)
  then show ?thesis unfolding st by simp
qed

subsection \<open>A failure of the tag-event source\<close>

lemma html_event_issues:
  "\<exists>ns. html_issues (html_event p st ev) = html_issues st @ ns \<and> list_all is_close_issue ns"
proof (cases ev)
  case (OpenTag nm at)
  then show ?thesis by (simp add: onopentag_def)
next
  case (CloseTag nm)
  then show ?thesis
    by (simp add: onclosetag_def Let_def is_close_issue_def html_unexpected_close_def
        html_tag_mismatch_def html_issue_def)
next
  case (TextNode tx)
  then show ?thesis by (simp add: ontext_def)
qed

lemma html_reachable_issues: "list_all is_close_issue (html_issues (html_reachable p evs))"
proof (induction evs rule: rev_induct)
  case Nil
  then show ?case by (simp add: html_reachable_def html_init_def)
next
  case (snoc ev evs)
  obtain ns where "html_issues (html_event p (html_reachable p evs) ev) = html_issues (html_reachable p evs) @ ns"
    "list_all is_close_issue ns"
    using html_event_issues by blast
  then show ?case using snoc by (simp add: html_reachable_def)
qed

lemma filter_parse_error_close: "list_all is_close_issue xs \<Longrightarrow> filter is_parse_error xs = []"
  by (induction xs) (auto simp: is_close_issue_def is_parse_error_def)

lemma filter_parse_error_unclosed: "filter is_parse_error (map (html_unclosed_tag p) ts) = []"
  by (induction ts) (simp_all add: is_parse_error_def html_unclosed_tag_def html_issue_def)

lemma opened_in_snoc: "opened_in evs t \<Longrightarrow> opened_in (evs @ [ev]) t"
proof -
  assume "opened_in evs t"
  then obtain before nm attribs after where
    e: "evs = before @ OpenTag nm attribs # after"
    and n: "frame_name t = toLowerCase nm" and l: "frame_line t = 1 + newlines_in before"
    unfolding opened_in_def by blast
  have "evs @ [ev] = before @ OpenTag nm attribs # (after @ [ev])" using e by simp
  then show ?thesis unfolding opened_in_def using n l by blast
qed

lemma html_reachable_stack_opened:
  "list_all (opened_in evs) (tagStack (html_reachable p evs))"
proof (induction evs rule: rev_induct)
  case Nil
  then show ?case by (simp add: html_reachable_def html_init_def)
next
  case (snoc ev evs)
  have old: "list_all (opened_in (evs @ [ev])) (tagStack (html_reachable p evs))"
    using snoc opened_in_snoc[of evs _ ev] by (simp add: list_all_iff)
  show ?case
  proof (cases ev)
    case (OpenTag nm at)
    have "opened_in (evs @ [ev])
            \<lparr>frame_name = toLowerCase nm, frame_line = currentLine (html_reachable p evs)\<rparr>"
      unfolding opened_in_def OpenTag
      by (rule exI[of _ evs], rule exI[of _ nm], rule exI[of _ at], rule exI[of _ "[]"])
         (simp add: html_reachable_currentLine)
    then show ?thesis using old OpenTag
      by (simp add: html_reachable_snoc onopentag_def)
  next
    case (CloseTag nm)
    have "list_all (opened_in (evs @ [ev])) (butlast (tagStack (html_reachable p evs)))"
      using old by (simp add: list_all_iff) (meson in_set_butlastD)
    then show ?thesis using old CloseTag
      by (simp add: html_reachable_snoc onclosetag_def Let_def)
  next
    case (TextNode tx)
    then show ?thesis using old by (simp add: html_reachable_snoc ontext_def)
  qed
qed

text \<open>
  Claim C7. When the tag-event source throws an error after delivering some events, the
  result is the issues of those events, then exactly one parse-error issue, with the
  message of the error and line 1, then one unclosed-tag error for every frame on the
  stack at that moment. Each of these frames was pushed by an open-tag event, and its
  error stands at the line where that tag was opened: 1 plus the number of newlines in the
  text events before it.
\<close>

theorem html_parse_failure:
  assumes run: "parser html_options (content file) = (evs, Threw_Error msg)"
  shows "HTML_analyze parser file =
           html_issues (html_reachable (path file) evs)
           @ [\<lparr>message = msg, filePath = path file, line = 1, column = 0,
                severity = Error, ruleId = ''HTML_PARSE_ERROR'', source = ''htmlparser2''\<rparr>]
           @ map (\<lambda>t. \<lparr>message = ''Unclosed tag <'' @ frame_name t @ ''>'',
                         filePath = path file, line = frame_line t, column = 0,
                         severity = Error, ruleId = ''HTML_UNCLOSED_TAG'', source = ''htmlparser2''\<rparr>)
               (tagStack (html_reachable (path file) evs)) \<and>
         filter is_parse_error (HTML_analyze parser file) =
           [\<lparr>message = msg, filePath = path file, line = 1, column = 0,
              severity = Error, ruleId = ''HTML_PARSE_ERROR'', source = ''htmlparser2''\<rparr>] \<and>
         list_all (opened_in evs) (tagStack (html_reachable (path file) evs))"
proof -
  have u: "html_unclosed_tag (path file) =
      (\<lambda>t. \<lparr>message = ''Unclosed tag <'' @ frame_name t @ ''>'',
              filePath = path file, line = frame_line t, column = 0,
              severity = Error, ruleId = ''HTML_UNCLOSED_TAG'', source = ''htmlparser2''\<rparr>)"
    by (rule ext) (simp add: html_unclosed_tag_def html_issue_def)
  have e: "html_parse_error (path file) msg =
      \<lparr>message = msg, filePath = path file, line = 1, column = 0,
        severity = Error, ruleId = ''HTML_PARSE_ERROR'', source = ''htmlparser2''\<rparr>"
    by (simp add: html_parse_error_def html_issue_def)
  have A: "HTML_analyze parser file =
           html_issues (html_reachable (path file) evs)
           @ [html_parse_error (path file) msg]
           @ map (html_unclosed_tag (path file)) (tagStack (html_reachable (path file) evs))"
    using run by (simp add: HTML_analyze_def Let_def html_reachable_def)
  have B: "filter is_parse_error (HTML_analyze parser file) = [html_parse_error (path file) msg]"
    unfolding A
    using filter_parse_error_close[OF html_reachable_issues[of "path file" evs]]
      filter_parse_error_unclosed[of "path file"]
    by (simp add: is_parse_error_def html_parse_error_def html_issue_def)
  show ?thesis
    using A B html_reachable_stack_opened[of evs "path file"] unfolding u e by blast
qed

theorem html_parse_failure_witness:
  "HTML_analyze
     (\<lambda>opts s. ([OpenTag ''div'' Map.empty, TextNode ''\<newline>'', OpenTag ''P'' Map.empty,
                  TextNode ''x\<newline>y\<newline>'', OpenTag ''br'' Map.empty, OpenTag ''span'' Map.empty,
                  CloseTag ''span'', OpenTag ''b'' Map.empty], Threw_Error ''boom''))
     \<lparr>path = ''i.html'', content = ''<div>...''\<rparr> =
   [\<lparr>message = ''boom'', filePath = ''i.html'', line = 1, column = 0,
      severity = Error, ruleId = ''HTML_PARSE_ERROR'', source = ''htmlparser2''\<rparr>,
    \<lparr>message = ''Unclosed tag <div>'', filePath = ''i.html'', line = 1, column = 0,
      severity = Error, ruleId = ''HTML_UNCLOSED_TAG'', source = ''htmlparser2''\<rparr>,
    \<lparr>message = ''Unclosed tag <p>'', filePath = ''i.html'', line = 2, column = 0,
      severity = Error, ruleId = ''HTML_UNCLOSED_TAG'', source = ''htmlparser2''\<rparr>,
    \<lparr>message = ''Unclosed tag <b>'', filePath = ''i.html'', line = 4, column = 0,
      severity = Error, ruleId = ''HTML_UNCLOSED_TAG'', source = ''htmlparser2''\<rparr>] \<and>
   opened_in [OpenTag ''div'' Map.empty, TextNode ''\<newline>'', OpenTag ''P'' Map.empty,
              TextNode ''x\<newline>y\<newline>'', OpenTag ''br'' Map.empty, OpenTag ''span'' Map.empty,
              CloseTag ''span'', OpenTag ''b'' Map.empty]
     \<lparr>frame_name = ''p'', frame_line = 2\<rparr>"
proof -
  have lo: "toLowerCase ''div'' = ''div''" "toLowerCase ''P'' = ''p''" "toLowerCase ''br'' = ''br''"
    "toLowerCase ''span'' = ''span''" "toLowerCase ''b'' = ''b''"
    by code_simp+
  have st: "html_reachable ''i.html'' [OpenTag ''div'' Map.empty, TextNode ''\<newline>'', OpenTag ''P'' Map.empty,
                  TextNode ''x\<newline>y\<newline>'', OpenTag ''br'' Map.empty, OpenTag ''span'' Map.empty,
                  CloseTag ''span'', OpenTag ''b'' Map.empty] =
      \<lparr>html_issues = [],
        tagStack = [\<lparr>frame_name = ''div'', frame_line = 1\<rparr>, \<lparr>frame_name = ''p'', frame_line = 2\<rparr>,
                    \<lparr>frame_name = ''b'', frame_line = 4\<rparr>],
        currentLine = 4\<rparr>"
    by (simp add: html_reachable_def html_init_def onopentag_def onclosetag_def ontext_def
        count_newlines_def lo selfClosingTags_def)
  from html_parse_failure[of "\<lambda>opts s. ([OpenTag ''div'' Map.empty, TextNode ''\<newline>'', OpenTag ''P'' Map.empty,
                  TextNode ''x\<newline>y\<newline>'', OpenTag ''br'' Map.empty, OpenTag ''span'' Map.empty,
                  CloseTag ''span'', OpenTag ''b'' Map.empty], Threw_Error ''boom'')"
      "\<lparr>path = ''i.html'', content = ''<div>...''\<rparr>", OF refl]
  show ?thesis by (simp add: st)
qed

section \<open>Cross-file validator: proofs\<close>

subsection \<open>The class pattern\<close>

lemma fold_insert_set: "fold insert xs A = set xs \<union> A"
  by (induction xs arbitrary: A) auto

lemma match_names_start:
  "n \<in> set (match_names sigil s) \<Longrightarrow> n \<noteq> [] \<and> is_name_start (hd n)"
proof (induction sigil s rule: match_names.induct)
  case (1 sigil)
  then show ?case by simp
next
  case (2 sigil c rest)
  show ?case
  proof (cases "c = sigil \<and> (case rest of [] \<Rightarrow> False | d # _ \<Rightarrow> is_name_start d)")
    case True
    then obtain d r where r: "rest = d # r" "is_name_start d" by (cases rest) auto
    have tw: "takeWhile is_name_char rest = d # takeWhile is_name_char r"
      using r by (simp add: is_name_char_def)
    from "2.prems" True consider "n = takeWhile is_name_char rest"
      | "n \<in> set (match_names sigil (dropWhile is_name_char rest))"
      by auto
    then show ?thesis
    proof cases
      case 1
      then show ?thesis using tw r by simp
    next
      case 2
      then show ?thesis using "2.IH"(1)[OF True] by simp
    qed
  next
    case False
    then have "n \<in> set (match_names sigil rest)" using "2.prems" by auto
    then show ?thesis using "2.IH"(2)[OF False] by simp
  qed
qed

lemma collected_class_starts_with_letter_or_underscore:
  "n \<in> fst (extractCSSDefinitions t ({}, {})) \<Longrightarrow> n \<noteq> [] \<and> hd n \<noteq> CHR ''-''"
proof -
  assume "n \<in> fst (extractCSSDefinitions t ({}, {}))"
  then have "n \<in> set (match_names CHR ''.'' (join_space (selector_loop (strip_urls (strip_comments t)) 0 [] [])))"
    by (simp add: extractCSSDefinitions_def Let_def fold_insert_set)
  from match_names_start[OF this] show ?thesis
    by (auto simp: is_name_start_def)
qed

text \<open>
  Claim C4 at the stylesheet \<^verbatim>\<open>.-foo{}\<close>: no class is collected, and a use of the class
  \<^verbatim>\<open>-foo\<close> in the same batch is reported as undefined. A name that starts with an
  underscore is collected.
\<close>

theorem hyphen_class_not_collected:
  "extractCSSDefinitions ''.-foo{}'' ({}, {}) = ({}, {}) \<and>
   extractCSSDefinitions ''._foo{}'' ({}, {}) = ({''_foo''}, {}) \<and>
   validate (\<lambda>opts s. ([OpenTag ''p'' [''class'' \<mapsto> ''-foo'']], Finished))
     [\<lparr>path = ''a.css'', content = ''.-foo{}''\<rparr>, \<lparr>path = ''b.html'', content = ''<p class=-foo>''\<rparr>] =
     [class_undefined \<lparr>usage_name = ''-foo'', usage_type = UClass, usage_filePath = ''b.html'', usage_line = 1\<rparr>]"
  by code_simp

subsection \<open>Definitions are collected from the whole batch first\<close>














subsection \<open>Blank class and id attributes\<close>

lemma split_ws_all_space: "list_all is_space v \<Longrightarrow> filter (\<lambda>w. w \<noteq> []) (split_ws v) = []"
proof (cases v)
  case Nil
  then show ?thesis by simp
next
  case (Cons c cs)
  assume a: "list_all is_space v"
  then have d: "dropWhile is_space cs = []" using Cons by (simp add: list_all_iff)
  have "is_space c" using a Cons by simp
  then show ?thesis unfolding Cons by (simp add: d)
qed

text \<open>
  Claim C10. An open tag whose class attribute is empty or made of white space only adds
  no class usage, and one whose id attribute is the empty string adds no id usage; with
  both, the usage list is unchanged, so no warning can come from such attributes.
\<close>

theorem blank_attributes_contribute_nothing:
  "((attribs ''class'' = Some v \<and> list_all is_space v) \<longrightarrow>
      filter (\<lambda>u. usage_type u = UClass) (usage (usage_onopentag p attribs st)) =
      filter (\<lambda>u. usage_type u = UClass) (usage st)) \<and>
   (attribs ''id'' = Some [] \<longrightarrow>
      filter (\<lambda>u. usage_type u = UId) (usage (usage_onopentag p attribs st)) =
      filter (\<lambda>u. usage_type u = UId) (usage st)) \<and>
   ((attribs ''class'' = Some v \<and> list_all is_space v \<and> attribs ''id'' = Some []) \<longrightarrow>
      usage_onopentag p attribs st = st)"
proof (intro conjI impI)
  assume a: "attribs ''class'' = Some v \<and> list_all is_space v"
  then have e: "filter (\<lambda>w. w \<noteq> []) (split_ws v) = []" by (simp add: split_ws_all_space)
  show "filter (\<lambda>u. usage_type u = UClass) (usage (usage_onopentag p attribs st)) =
      filter (\<lambda>u. usage_type u = UClass) (usage st)"
    using a e by (simp add: usage_onopentag_def Let_def split: option.splits)
next
  assume a: "attribs ''id'' = Some []"
  have "filter (\<lambda>u. usage_type u = UClass) (map (\<lambda>className. \<lparr>usage_name = className, usage_type = UClass,
            usage_filePath = p, usage_line = usage_currentLine st\<rparr>) ws) =
        map (\<lambda>className. \<lparr>usage_name = className, usage_type = UClass,
            usage_filePath = p, usage_line = usage_currentLine st\<rparr>) ws" for ws
    by (induction ws) simp_all
  have f: "filter (\<lambda>u. usage_type u = UId) (map (\<lambda>className. \<lparr>usage_name = className, usage_type = UClass,
            usage_filePath = p, usage_line = usage_currentLine st\<rparr>) ws) = []" for ws
    by (induction ws) simp_all
  show "filter (\<lambda>u. usage_type u = UId) (usage (usage_onopentag p attribs st)) =
      filter (\<lambda>u. usage_type u = UId) (usage st)"
    using a f by (simp add: usage_onopentag_def Let_def split: option.splits)
next
  assume a: "attribs ''class'' = Some v \<and> list_all is_space v \<and> attribs ''id'' = Some []"
  then have e: "filter (\<lambda>w. w \<noteq> []) (split_ws v) = []" by (simp add: split_ws_all_space)
  show "usage_onopentag p attribs st = st"
    using a e by (simp add: usage_onopentag_def Let_def)
qed

theorem blank_attributes_contribute_nothing_witness:
  "usage_onopentag ''i.html'' [''class'' \<mapsto> ''  '', ''id'' \<mapsto> []] \<lparr>usage = [], usage_currentLine = 1\<rparr> =
     \<lparr>usage = [], usage_currentLine = 1\<rparr>"
proof -
  have s: "list_all is_space ''  ''" by (simp add: is_space_def)
  from blank_attributes_contribute_nothing[of "[''class'' \<mapsto> ''  '', ''id'' \<mapsto> []]" "''  ''"
      "''i.html''" "\<lparr>usage = [], usage_currentLine = 1\<rparr>"] s
  show ?thesis by simp
qed

section \<open>Orchestrator: proofs\<close>

subsection \<open>Extensions in upper case\<close>







subsection \<open>When the orchestrator raises\<close>

lemma single_file_loop_result:
  "single_file_loop argLimit parser acorn files allIssues =
     (if list_ex (\<lambda>file. argLimit < length (single_file_issues parser acorn file)) files
      then Inl RangeError
      else Inr (allIssues @ concat (map (single_file_issues parser acorn) files)))"
proof (induction files arbitrary: allIssues)
  case Nil
  then show ?case by simp
next
  case (Cons f fs)
  show ?case
  proof (cases "getAnalyzerForFile (path f)")
    case None
    then have s: "single_file_issues parser acorn f = []"
      by (simp add: single_file_issues_def)
    show ?thesis using None Cons by (simp add: s)
  next
    case (Some analyzer)
    then have s: "single_file_issues parser acorn f = run_analyzer parser acorn analyzer f"
      by (simp add: single_file_issues_def)
    show ?thesis using Some Cons by (simp add: s push_spread_def)
  qed
qed

lemma usage_loop_result:
  "usage_loop argLimit parser files usedSelectors =
     (if list_ex (\<lambda>file. is_markup_path (path file) \<and> argLimit < length (extractHTMLUsage parser file)) files
      then Inl RangeError
      else Inr (usedSelectors
                @ concat (map (\<lambda>file. if is_markup_path (path file)
                                        then extractHTMLUsage parser file else []) files)))"
proof (induction files arbitrary: usedSelectors)
  case Nil
  then show ?case by simp
next
  case (Cons f fs)
  then show ?case by (simp add: push_spread_def)
qed

lemma validate_run_result:
  "validate_run argLimit parser files =
     (if list_ex (\<lambda>file. is_markup_path (path file) \<and> argLimit < length (extractHTMLUsage parser file)) files
      then Inl RangeError
      else Inr (validate parser files))"
  by (simp add: validate_run_def validate_def Let_def usage_loop_result)

lemma analyze_result:
  "analyze argLimit parser acorn files =
     (if overlong_spread argLimit parser acorn files then Inl RangeError
      else Inr (buildResponse (concat (map (single_file_issues parser acorn) files)
                               @ validate parser files)))"
  by (simp add: analyze_def overlong_spread_def single_file_loop_result crossValidators_def
      validate_run_result push_spread_def)

text \<open>
  What claim C2 says of the response holds whenever \<open>analyze\<close> returns, and it returns
  whenever no list spread into a call is longer than the engine allows.
\<close>

lemma analyze_response_when_returned:
  assumes "analyze argLimit parser acorn files = Inr r"
  shows "success r \<and>
         block_issues (typecheck r) = [] \<and>
         summary (typecheck r) = \<lparr>errorCount = 0, warningCount = 0, infoCount = 0\<rparr> \<and>
         block_issues (lint r) = concat (map (single_file_issues parser acorn) files) @ validate parser files \<and>
         errorCount (summary (lint r)) = length (filter (\<lambda>i. severity i = Error) (block_issues (lint r))) \<and>
         warningCount (summary (lint r)) = length (filter (\<lambda>i. severity i = Warning) (block_issues (lint r))) \<and>
         infoCount (summary (lint r)) = length (filter (\<lambda>i. severity i = Info) (block_issues (lint r)))"
proof -
  have "r = buildResponse (concat (map (single_file_issues parser acorn) files) @ validate parser files)"
    using assms by (simp add: analyze_result split: if_splits)
  then show ?thesis by (simp add: buildResponse_def)
qed

lemma analyze_returns_within_limit:
  "\<not> overlong_spread argLimit parser acorn files \<Longrightarrow>
   \<exists>r. analyze argLimit parser acorn files = Inr r"
  by (simp add: analyze_result)

lemma split_lines_replicate:
  "c \<noteq> CHR 0x0A \<Longrightarrow> split_lines (replicate n c) = [replicate n c]"
  by (induction n) simp_all

lemma scan_line_stray_braces:
  assumes "\<not> inString st" "\<not> inComment st" "braceCount st = 0"
  shows "length (issues (scan_line p l i prev (replicate n (CHR ''}'')) st)) = length (issues st) + n \<and>
         \<not> inString (scan_line p l i prev (replicate n (CHR ''}'')) st) \<and>
         \<not> inComment (scan_line p l i prev (replicate n (CHR ''}'')) st) \<and>
         braceCount (scan_line p l i prev (replicate n (CHR ''}'')) st) = 0"
  using assms
proof (induction n arbitrary: st i prev)
  case 0
  then show ?case by simp
next
  case (Suc n)
  define st' where "st' = st\<lparr>braceCount := 0, issues := issues st @ [css_unexpected_brace p l i]\<rparr>"
  have b: "css_body p l i prev (CHR ''}'') (char_at_0 (replicate n (CHR ''}''))) st = (st', False)"
    unfolding st'_def using Suc.prems by (intro css_body_close_at_depth_0) simp_all
  have c: "\<not> inString st'" "\<not> inComment st'" "braceCount st' = 0"
    using Suc.prems by (simp_all add: st'_def)
  have e: "scan_line p l i prev (replicate (Suc n) (CHR ''}'')) st =
           scan_line p l (i + 1) (Some (CHR ''}'')) (replicate n (CHR ''}'')) st'"
    by (simp add: b)
  from Suc.IH[OF c, of "i + 1" "Some (CHR ''}'')"] show ?case
    unfolding e by (simp add: st'_def)
qed

lemma css_stray_braces_count:
  "length (CSS_analyze \<lparr>path = p, content = replicate n (CHR ''}'')\<rparr>) = n"
proof -
  have i: "\<not> inString css_init" "\<not> inComment css_init" "braceCount css_init = 0" "issues css_init = []"
    by (simp_all add: css_init_def)
  from scan_line_stray_braces[OF i(1,2,3), of p 0 0 None n] i(4)
  show ?thesis
    by (simp add: CSS_analyze_def Let_def split_lines_replicate css_eof_def)
qed

subsection \<open>Rule ids\<close>

lemma known_rule_unexpected: "list_all is_unexpected ns \<Longrightarrow> list_all known_rule ns"
  by (induction ns) (simp_all add: is_unexpected_def known_rule_def code_rule_ids_def)

lemma known_rule_close: "list_all is_close_issue ns \<Longrightarrow> list_all known_rule ns"
  by (induction ns) (auto simp: is_close_issue_def known_rule_def code_rule_ids_def)

lemma css_known_rules: "list_all known_rule (CSS_analyze f)"
proof -
  obtain ns where ns: "issues (scan_lines (path f) 0 (split_lines (content f)) css_init) = ns"
    "list_all is_unexpected ns"
    using scan_lines_issues[of "path f" 0 "split_lines (content f)" css_init]
    by (auto simp: css_init_def)
  show ?thesis
    using known_rule_unexpected[OF ns(2)] ns(1)
    by (simp add: CSS_analyze_def Let_def css_eof_def known_rule_def code_rule_ids_def
        css_unclosed_brace_def css_unclosed_comment_def css_unclosed_string_def)
qed

lemma html_known_rules: "list_all known_rule (HTML_analyze parser f)"
proof -
  define run where "run = parser html_options (content f)"
  have 1: "list_all known_rule (html_issues (html_reachable (path f) (fst run)))"
    by (rule known_rule_close[OF html_reachable_issues])
  have 2: "list_all known_rule (map (html_unclosed_tag (path f)) ts)" for ts
    by (induction ts) (simp_all add: known_rule_def code_rule_ids_def html_unclosed_tag_def html_issue_def)
  have 3: "list_all known_rule (case snd run of Threw_Error msg \<Rightarrow> [html_parse_error (path f) msg] | _ \<Rightarrow> [])"
    by (cases "snd run") (simp_all add: known_rule_def code_rule_ids_def html_parse_error_def html_issue_def)
  show ?thesis
    using 1 2 3 unfolding HTML_analyze_def Let_def run_def[symmetric] html_reachable_def[symmetric]
    by simp
qed

lemma js_known_rules: "list_all known_rule (JS_analyze acorn f)"
  by (cases "acorn (content f)")
     (simp_all add: JS_analyze_def known_rule_def code_rule_ids_def js_issue_def)

lemma report_usage_known: "list_all known_rule (report_usage defs u)"
  by (simp add: report_usage_def known_rule_def code_rule_ids_def class_undefined_def
      id_undefined_def validator_issue_def)

lemma list_all_concat_map: "(\<And>x. list_all P (f x)) \<Longrightarrow> list_all P (concat (map f xs))"
  by (induction xs) simp_all

lemma validate_known_rules: "list_all known_rule (validate parser files)"
  unfolding validate_def Let_def
  by (rule list_all_concat_map) (rule report_usage_known)

lemma single_file_known: "list_all known_rule (single_file_issues parser acorn f)"
proof (cases "getAnalyzerForFile (path f)")
  case None
  then show ?thesis by (simp add: single_file_issues_def)
next
  case (Some a)
  then show ?thesis
    using css_known_rules html_known_rules js_known_rules
    by (cases a) (simp_all add: single_file_issues_def)
qed

text \<open>
  Claim C1, as amended. Every issue of the three analyzers and of the validator, hence
  every issue of the merged list and of any response the orchestrator returns, carries one
  of the twelve rule ids of the source, which are not the strings of the specification's
  list.
\<close>

theorem rule_ids_of_the_code:
  "list_all known_rule (CSS_analyze f) \<and>
   list_all known_rule (HTML_analyze parser f) \<and>
   list_all known_rule (JS_analyze acorn f) \<and>
   list_all known_rule (validate parser files) \<and>
   list_all known_rule (concat (map (single_file_issues parser acorn) files) @ validate parser files) \<and>
   (case validate_run argLimit parser files of
      Inl e \<Rightarrow> True
    | Inr found \<Rightarrow> list_all known_rule found) \<and>
   (case analyze argLimit parser acorn files of
      Inl e \<Rightarrow> True
    | Inr r \<Rightarrow> list_all known_rule (block_issues (lint r)))"
proof -
  have m: "list_all known_rule (concat (map (single_file_issues parser acorn) files) @ validate parser files)"
    using list_all_concat_map[of known_rule "single_file_issues parser acorn" files, OF single_file_known]
      validate_known_rules[of parser files]
    by simp
  have v: "(case validate_run argLimit parser files of
      Inl e \<Rightarrow> True
    | Inr found \<Rightarrow> list_all known_rule found)"
    using validate_known_rules[of parser files] by (simp add: validate_run_result)
  have a: "(case analyze argLimit parser acorn files of
      Inl e \<Rightarrow> True
    | Inr r \<Rightarrow> list_all known_rule (block_issues (lint r)))"
    using m by (simp add: analyze_result buildResponse_def)
  show ?thesis
    using css_known_rules html_known_rules js_known_rules validate_known_rules m v a by blast
qed

text \<open>
  Claim C1, as stated, fails: the stylesheet \<^verbatim>\<open>}\<close> yields an issue whose rule id is
  \<^verbatim>\<open>CSS_UNEXPECTED_BRACE\<close>, which the specification's list does not hold.
\<close>

theorem rule_ids_of_the_spec_counterexample:
  "CSS_analyze \<lparr>path = ''a.css'', content = ''}''\<rparr> = [css_unexpected_brace ''a.css'' 0 0] \<and>
   ruleId (css_unexpected_brace ''a.css'' 0 0) = ''CSS_UNEXPECTED_BRACE'' \<and>
   ''CSS_UNEXPECTED_BRACE'' \<notin> set spec_rule_ids"
  by code_simp

subsection \<open>A stylesheet that makes the orchestrator raise\<close>

text \<open>
  Claim C2 at a stylesheet of stray closing braces, one more than the engine's bound on
  the arguments of a call: the analyzer returns one issue for each brace,
  \<^verbatim>\<open>allIssues.push(...issues)\<close> raises, and \<open>analyze\<close> returns no response.
\<close>

theorem analyze_raises_on_long_issue_list:
  "analyze argLimit parser acorn [\<lparr>path = ''a.css'', content = replicate (Suc argLimit) (CHR ''}'')\<rparr>] =
     Inl RangeError"
proof -
  have a: "getAnalyzerForFile ''a.css'' = Some CSSAnalyzer" by code_simp
  have "single_file_issues parser acorn \<lparr>path = ''a.css'', content = replicate (Suc argLimit) (CHR ''}'')\<rparr> =
        CSS_analyze \<lparr>path = ''a.css'', content = replicate (Suc argLimit) (CHR ''}'')\<rparr>"
    by (simp add: single_file_issues_def a)
  then have "argLimit < length (single_file_issues parser acorn
                \<lparr>path = ''a.css'', content = replicate (Suc argLimit) (CHR ''}'')\<rparr>)"
    using css_stray_braces_count[of "''a.css''" "Suc argLimit"] by simp
  then show ?thesis by (simp add: analyze_result overlong_spread_def)
qed

end
